theory Spec2Isabelle
  imports Complex_Main "HOL-Library.Multiset"
begin

section \<open>Python values shared by the embedded functions\<close>

text \<open>
  The exceptions the embedded code can raise. \<open>UnitFailure\<close> stands for whatever exception a
  dispatched unit of work raised inside a worker; the others are Python's built-in
  exceptions of the same name.
\<close>

datatype py_error =
  IndexError | ValueError | TypeError | NameError | KeyError | OverflowError | UnitFailure

text \<open>Running a list of computations in order, stopping at the first exception.\<close>

fun sequence_err :: "('e + 'a) list \<Rightarrow> 'e + 'a list" where
  "sequence_err [] = Inr []"
| "sequence_err (r # rs) =
     (case r of
        Inl e \<Rightarrow> Inl e
      | Inr x \<Rightarrow> (case sequence_err rs of Inl e \<Rightarrow> Inl e | Inr xs \<Rightarrow> Inr (x # xs)))"

text \<open>
  Python's \<open>range(start, stop, step)\<close> (and \<open>numpy.arange\<close> on integers), as the loop it
  abbreviates: ascending for a positive step, descending for a negative one, and a
  \<open>ValueError\<close> for a zero step.
\<close>

function range_up :: "int \<Rightarrow> int \<Rightarrow> int \<Rightarrow> int list" where
  "range_up start stop step =
     (if 0 < step \<and> start < stop then start # range_up (start + step) stop step else [])"
  by pat_completeness auto
termination
  by (relation "measure (\<lambda>(start, stop, step). nat (stop - start))") auto

declare range_up.simps [simp del]

function range_down :: "int \<Rightarrow> int \<Rightarrow> int \<Rightarrow> int list" where
  "range_down start stop step =
     (if step < 0 \<and> stop < start then start # range_down (start + step) stop step else [])"
  by pat_completeness auto
termination
  by (relation "measure (\<lambda>(start, stop, step). nat (start - stop))") auto

declare range_down.simps [simp del]

definition py_range :: "int \<Rightarrow> int \<Rightarrow> int \<Rightarrow> py_error + int list" where
  "py_range start stop step =
     (if step = 0 then Inl ValueError
      else if 0 < step then Inr (range_up start stop step)
      else Inr (range_down start stop step))"

section \<open>Python floats (IEEE 754 double precision)\<close>

text \<open>
  A float is modelled by the real number it holds. The finite floats are the numbers
  \<open>m * 2^e\<close> with \<open>|m| \<le> 2^53\<close> and \<open>-1074 \<le> e\<close>, up to \<open>float_max\<close> in absolute value.
  Infinities, NaN and the sign of zero have no counterpart: the floats that enter the
  embedded code (\<open>mcbs_alpha\<close>, \<open>evol_window_frac\<close>) are taken to be finite. Rounding is
  applied wherever an integer is computed from a float (the window size and the two
  positions in the sorted resample statistics); the rates and statistics, which are only
  stored, are kept as the real numbers they approximate.

  \<open>float_round x\<close> is the float nearest to the real \<open>x\<close>, the one with the even
  significand when two are equally near: the value that float arithmetic, the conversion
  of an int and the reading of a decimal literal give for the exact result \<open>x\<close>. The last
  place kept is \<open>2^k\<close> for \<open>|x| \<ge> 2^53\<close>, where \<open>k = float_expo \<lfloor>|x|\<rfloor>\<close> halvings bring the integer part
  below \<open>2^53\<close>; it is \<open>2^(-j)\<close> otherwise, where \<open>j = float_shift 0 |x|\<close> doublings bring \<open>|x|\<close>
  to \<open>2^52\<close> or above, \<open>j\<close> being at most 1074, the last place of the subnormal floats.
\<close>

function float_expo :: "int \<Rightarrow> nat" where
  "float_expo m = (if m < 2 ^ 53 then 0 else Suc (float_expo (m div 2)))"
  by pat_completeness auto
termination
  by (relation "measure nat") auto

declare float_expo.simps [simp del]

function float_shift :: "nat \<Rightarrow> real \<Rightarrow> nat" where
  "float_shift j a =
     (if a \<le> 0 \<or> 2 ^ 52 \<le> a \<or> 1074 \<le> j then j else float_shift (Suc j) (2 * a))"
  by pat_completeness auto
termination
  by (relation "measure (\<lambda>(j, a). 1074 - j)") auto

declare float_shift.simps [simp del]

definition round_half_even :: "real \<Rightarrow> int" where
  "round_half_even q =
     (let f = \<lfloor>q\<rfloor>; d = q - of_int f
      in if d < 1 / 2 then f else if 1 / 2 < d then f + 1 else if even f then f else f + 1)"

definition float_round :: "real \<Rightarrow> real" where
  "float_round x =
     (if 2 ^ 53 \<le> \<bar>x\<bar> then
        (let k = float_expo \<lfloor>\<bar>x\<bar>\<rfloor> in of_int (round_half_even (x / 2 ^ k)) * 2 ^ k)
      else
        (let j = float_shift 0 \<bar>x\<bar> in of_int (round_half_even (x * 2 ^ j)) / 2 ^ j))"

text \<open>The largest finite float, \<open>sys.float_info.max\<close>.\<close>

definition float_max :: real where
  "float_max = (2 ^ 53 - 1) * 2 ^ 971"

text \<open>
  The float for an exact result \<open>x\<close>. When the rounded value lies beyond \<open>float_max\<close>, the
  conversion of an int raises \<open>OverflowError\<close>, and arithmetic on floats gives an infinity.
  In the three expressions embedded below an infinite product is at most halved, which
  leaves it infinite, before it reaches \<open>math.floor\<close>, \<open>math.ceil\<close> or \<open>int\<close>, and these
  raise \<open>OverflowError\<close> on an infinity; so that exception stands for the infinite result
  as well.
\<close>

definition float_result :: "real \<Rightarrow> py_error + real" where
  "float_result x =
     (let r = float_round x in if \<bar>r\<bar> \<le> float_max then Inr r else Inl OverflowError)"

text \<open>
  \<open>float(n)\<close> as applied to an int operand of mixed arithmetic, and the three operations
  on floats the embedded code uses.
\<close>

definition float_of_int :: "int \<Rightarrow> py_error + real" where
  "float_of_int n = float_result (of_int n)"

definition float_mul :: "real \<Rightarrow> real \<Rightarrow> py_error + real" where
  "float_mul x y = float_result (x * y)"

definition float_sub :: "real \<Rightarrow> real \<Rightarrow> py_error + real" where
  "float_sub x y = float_result (x - y)"

definition float_half :: "real \<Rightarrow> py_error + real" where
  "float_half x = float_result (x / 2)"

text \<open>The product of a float and an int, in either order of the operands.\<close>

definition float_mul_int :: "real \<Rightarrow> int \<Rightarrow> py_error + real" where
  "float_mul_int x n =
     (case float_of_int n of Inl e \<Rightarrow> Inl e | Inr y \<Rightarrow> float_mul x y)"

text \<open>Python's \<open>int(x)\<close> on a float truncates towards zero.\<close>

definition py_int :: "real \<Rightarrow> int" where
  "py_int x = (if 0 \<le> x then \<lfloor>x\<rfloor> else \<lceil>x\<rceil>)"

text \<open>
  Two notions used to reason about \<open>float_round\<close>, on numbers scaled by \<open>2^1074\<close> so that
  the last place of the subnormal floats is 1: rounding to a multiple of \<open>2^k\<close>, and \<open>2^k\<close>
  being the last place of the float format at \<open>y\<close> (53 significant bits, or \<open>k = 0\<close>).
\<close>

definition float_rnd :: "nat \<Rightarrow> real \<Rightarrow> real" where
  "float_rnd k y = of_int (round_half_even (y / 2 ^ k)) * 2 ^ k"

definition float_ulp :: "real \<Rightarrow> nat \<Rightarrow> bool" where
  "float_ulp y k \<longleftrightarrow> \<bar>y\<bar> < 2 ^ (53 + k) \<and> (k = 0 \<or> 2 ^ (52 + k) \<le> \<bar>y\<bar>)"

section \<open>Planning the evolution windows (w_kinavg.py, both \<open>go\<close> methods)\<close>

datatype evolution_mode = Cumulative | Blocked | NoEvolution

text \<open>
  The body of the loop over \<open>enumerate(start_pts)\<close>, identical in
  \<open>AvgTraceSubcommand.go\<close> (lines 355-360) and \<open>AvgMatrixSubcommand.go\<close>
  (lines 608-613): the window \<open>(block_start, stop)\<close> of the block that begins at \<open>start\<close>.
  The \<open>else\<close> branch is taken for every mode other than cumulative.
\<close>

definition block_window ::
  "evolution_mode \<Rightarrow> real \<Rightarrow> int \<Rightarrow> int \<Rightarrow> int \<Rightarrow> int \<Rightarrow> py_error + int \<times> int" where
  "block_window mode window_frac start_iter stop_iter step_iter start =
     (let stop = min (start + step_iter) stop_iter in
      if mode = Cumulative then
        (case float_mul_int window_frac (stop - start_iter) of
           Inl e \<Rightarrow> Inl e
         | Inr product \<Rightarrow>
             (let windowsize = py_int product;
                  block_start = max start_iter (stop - windowsize)
              in Inr (block_start, stop)))
      else Inr (start, stop))"

text \<open>
  \<open>start_pts = range(start_iter, stop_iter, step_iter)\<close> followed by the loop: the list of
  \<open>(iblock, block_start, stop)\<close> in the order the blocks are dispatched, or the first
  exception met.
\<close>

definition evol_windows ::
  "evolution_mode \<Rightarrow> real \<Rightarrow> int \<Rightarrow> int \<Rightarrow> int \<Rightarrow> py_error + (nat \<times> int \<times> int) list" where
  "evol_windows mode window_frac start_iter stop_iter step_iter =
     (case py_range start_iter stop_iter step_iter of
        Inl e \<Rightarrow> Inl e
      | Inr start_pts \<Rightarrow>
          sequence_err
            (map (\<lambda>(iblock, start).
                    case block_window mode window_frac start_iter stop_iter step_iter start of
                      Inl e \<Rightarrow> Inl e
                    | Inr window \<Rightarrow> Inr (iblock, window))
                 (enumerate 0 start_pts)))"

text \<open>The number of steps of size \<open>step\<close> needed to reach \<open>stop\<close> from \<open>start\<close>.\<close>

definition n_windows :: "int \<Rightarrow> int \<Rightarrow> int \<Rightarrow> nat" where
  "n_windows start stop step = nat ((stop - start + step - 1) div step)"


section \<open>Basis states read from a file (src/wemd/states.py)\<close>

text \<open>The Python values that occur as constructor arguments and attributes.\<close>

datatype pyval = PNone | PStr string | PFloat real

record basis_state =
  label :: pyval
  probability :: pyval
  pcoord :: "pyval list"
  auxref :: pyval
  state_id :: pyval

text \<open>
  \<open>BasisState.__init__(self, label, probability, pcoord=None, auxref=None, state_id=None)\<close>
  called with keyword arguments only. Python raises \<open>TypeError\<close> for a keyword that is not a
  parameter and for a missing required parameter. \<open>numpy.atleast_1d\<close> wraps a scalar into a
  one-element array.
\<close>

definition BasisState_params :: "string list" where
  "BasisState_params = [''label'', ''probability'', ''pcoord'', ''auxref'', ''state_id'']"

definition kwarg_default :: "(string \<times> pyval) list \<Rightarrow> string \<Rightarrow> pyval" where
  "kwarg_default kwargs name = (case map_of kwargs name of None \<Rightarrow> PNone | Some v \<Rightarrow> v)"

definition BasisState_init :: "(string \<times> pyval) list \<Rightarrow> py_error + basis_state" where
  "BasisState_init kwargs =
     (if list_ex (\<lambda>k. k \<notin> set BasisState_params) (map fst kwargs) then Inl TypeError
      else case (map_of kwargs ''label'', map_of kwargs ''probability'') of
        (Some l, Some p) \<Rightarrow>
          Inr \<lparr>label = l, probability = p,
               pcoord = [kwarg_default kwargs ''pcoord''],
               auxref = kwarg_default kwargs ''auxref'',
               state_id = kwarg_default kwargs ''state_id''\<rparr>
      | _ \<Rightarrow> Inl TypeError)"

text \<open>Whitespace as \<open>str.strip()\<close> and \<open>str.split()\<close> see it.\<close>

definition is_space :: "char \<Rightarrow> bool" where
  "is_space c = (c \<in> set [CHR '' '', CHR 0x09, CHR 0x0A, CHR 0x0B, CHR 0x0C, CHR 0x0D])"

definition py_strip :: "string \<Rightarrow> string" where
  "py_strip s = rev (dropWhile is_space (rev (dropWhile is_space s)))"

text \<open>\<open>s.split()\<close>: the maximal runs of non-whitespace characters, in order.\<close>

fun split_acc :: "string \<Rightarrow> string \<Rightarrow> string list" where
  "split_acc cur [] = (if cur = [] then [] else [rev cur])"
| "split_acc cur (c # cs) =
     (if is_space c then (if cur = [] then split_acc [] cs else rev cur # split_acc [] cs)
      else split_acc (c # cur) cs)"

definition py_split :: "string \<Rightarrow> string list" where
  "py_split s = split_acc [] s"

text \<open>\<open>line.partition('#')[0].strip()\<close>: the line without its comment, stripped.\<close>

definition data_part :: "string \<Rightarrow> string" where
  "data_part raw = py_strip (takeWhile (\<lambda>c. c \<noteq> CHR ''#'') raw)"

text \<open>
  One iteration of the loop body of \<open>BasisState.states_from_file\<close> on a line that is not
  skipped: the state appended, or the exception raised. \<open>py_float\<close> is Python's
  \<open>float()\<close> on a string, \<open>None\<close> when it raises \<open>ValueError\<close>. \<open>flds[1]\<close> on a
  one-field line raises \<open>IndexError\<close>, which the \<open>except ValueError\<close> does not catch.
\<close>

definition state_of_fields ::
  "(string \<Rightarrow> real option) \<Rightarrow> string list \<Rightarrow> py_error + basis_state" where
  "state_of_fields py_float flds =
     (case flds of
        [] \<Rightarrow> Inl IndexError
      | lbl # fs1 \<Rightarrow>
          (case fs1 of
             [] \<Rightarrow> Inl IndexError
           | f1 # fs2 \<Rightarrow>
               (case py_float f1 of
                  None \<Rightarrow> Inl ValueError
                | Some prob \<Rightarrow>
                    (let data_ref = (case fs2 of [] \<Rightarrow> PNone | f2 # _ \<Rightarrow> PStr (py_strip f2))
                     in BasisState_init
                          [(''state_id'', PNone), (''probability'', PFloat prob),
                           (''label'', PStr lbl), (''data_ref'', data_ref)]))))"

text \<open>
  The loop over the lines of the file, with the list \<open>states\<close> built so far. The line
  counter only feeds the error message and is left out.
\<close>

fun states_from_lines ::
  "(string \<Rightarrow> real option) \<Rightarrow> string list \<Rightarrow> basis_state list \<Rightarrow> py_error + basis_state list" where
  "states_from_lines py_float [] states = Inr states"
| "states_from_lines py_float (raw # rest) states =
     (if data_part raw = [] then states_from_lines py_float rest states
      else (case state_of_fields py_float (py_split (data_part raw)) of
              Inl e \<Rightarrow> Inl e
            | Inr st \<Rightarrow> states_from_lines py_float rest (states @ [st])))"

definition states_from_file ::
  "(string \<Rightarrow> real option) \<Rightarrow> string list \<Rightarrow> py_error + basis_state list" where
  "states_from_file py_float file_lines = states_from_lines py_float file_lines []"

text \<open>The lines the claim speaks of.\<close>

definition is_data_line :: "string \<Rightarrow> bool" where
  "is_data_line raw = (data_part raw \<noteq> [])"

definition second_field_parses :: "(string \<Rightarrow> real option) \<Rightarrow> string \<Rightarrow> bool" where
  "second_field_parses py_float raw =
     (case py_split (data_part raw) of
        _ # f1 # _ \<Rightarrow> py_float f1 \<noteq> None
      | _ \<Rightarrow> False)"

section \<open>Block bootstrap of one state pair (w_kinavg.py, \<open>_calc_ci_block\<close>)\<close>

text \<open>
  numpy indexing of a one-dimensional array by an integer: a negative index counts from
  the end, an index outside the array raises \<open>IndexError\<close>.
\<close>

definition np_get :: "'a list \<Rightarrow> int \<Rightarrow> py_error + 'a" where
  "np_get xs i =
     (if 0 \<le> i \<and> i < int (length xs) then Inr (xs ! nat i)
      else if i < 0 \<and> 0 \<le> i + int (length xs) then Inr (xs ! nat (i + int (length xs)))
      else Inl IndexError)"

text \<open>A value stored with \<open>dtype=numpy.uintc\<close>: an unsigned 32-bit integer.\<close>

definition uintc :: "int \<Rightarrow> int" where
  "uintc x = x mod 2 ^ 32"

text \<open>
  Lines 492-495: the block boundaries. \<open>starts\<close> and \<open>stops\<close> are the two
  \<open>numpy.arange\<close> arrays; the last stop is capped at \<open>stop_iter\<close>; \<open>stops[-1]\<close> on an
  empty array raises \<open>IndexError\<close>.
\<close>

definition bootstrap_blocks :: "int \<Rightarrow> int \<Rightarrow> int \<Rightarrow> py_error + (int list \<times> int list)" where
  "bootstrap_blocks start_iter stop_iter stride =
     (let starts = map uintc (range_up start_iter stop_iter stride);
          stops = map uintc (range_up (start_iter + stride) (stop_iter + stride) stride)
      in if stops = [] then Inl IndexError
         else if last stops > stop_iter
           then Inr (starts, stops[length stops - 1 := uintc stop_iter])
           else Inr (starts, stops))"

text \<open>
  Lines 503-506: the iterations read for one resample, in the order they are read.
  \<open>picks\<close> are the values \<open>random.randint(0, nblocks-1)\<close> returned, one per pass of the
  loop over \<open>_block\<close>; \<open>iters_averaged\<close> is the length of the result. Indexing
  \<open>starts\<close> or \<open>stops\<close> outside the array raises \<open>IndexError\<close>.
\<close>

definition resample_iters :: "int list \<Rightarrow> int list \<Rightarrow> nat list \<Rightarrow> py_error + int list" where
  "resample_iters starts stops picks =
     (if list_all (\<lambda>iblock. iblock < length starts \<and> iblock < length stops) picks
      then Inr (concat (map (\<lambda>iblock. range_up (starts ! iblock) (stops ! iblock) 1) picks))
      else Inl IndexError)"

text \<open>
  Lines 497-521: the \<open>mcbs_nsets\<close> resample statistics, unsorted. Each resample makes
  \<open>nblocks = len(starts)\<close> draws. \<open>rate_of its\<close> stands for the macrostate rate
  \<open>[istate, jstate]\<close> obtained from the fluxes and populations averaged over the
  iterations \<open>its\<close> (the HDF5 reads, \<open>labeled_flux_to_rate\<close> and
  \<open>get_macrostate_rates\<close> are outside this file); \<open>randint iset b\<close> is the block drawn
  in pass \<open>b\<close> of resample \<open>iset\<close>.
\<close>

definition synth_rates ::
  "(int list \<Rightarrow> real) \<Rightarrow> (nat \<Rightarrow> nat \<Rightarrow> nat) \<Rightarrow> int list \<Rightarrow> int list \<Rightarrow> int \<Rightarrow> py_error + real list" where
  "synth_rates rate_of randint starts stops mcbs_nsets =
     sequence_err
       (map (\<lambda>iset.
               case resample_iters starts stops (map (randint iset) [0..<length starts]) of
                 Inl e \<Rightarrow> Inl e
               | Inr its \<Rightarrow> Inr (rate_of its))
            [0..<nat mcbs_nsets])"

text \<open>
  Lines 487-488: the positions read from the sorted resample statistics,
  \<open>int(math.floor(mcbs_nsets*mcbs_alpha/2.0))\<close> and
  \<open>int(math.ceil(mcbs_nsets*(1-mcbs_alpha/2.0)))\<close>, each operation giving a float.
\<close>

definition lbi :: "int \<Rightarrow> real \<Rightarrow> py_error + int" where
  "lbi mcbs_nsets mcbs_alpha =
     (case float_mul_int mcbs_alpha mcbs_nsets of
        Inl e \<Rightarrow> Inl e
      | Inr product \<Rightarrow>
     (case float_half product of
        Inl e \<Rightarrow> Inl e
      | Inr position \<Rightarrow> Inr \<lfloor>position\<rfloor>))"

definition ubi :: "int \<Rightarrow> real \<Rightarrow> py_error + int" where
  "ubi mcbs_nsets mcbs_alpha =
     (case float_half mcbs_alpha of
        Inl e \<Rightarrow> Inl e
      | Inr half \<Rightarrow>
     (case float_sub 1 half of
        Inl e \<Rightarrow> Inl e
      | Inr upper \<Rightarrow>
     (case float_mul_int upper mcbs_nsets of
        Inl e \<Rightarrow> Inl e
      | Inr position \<Rightarrow> Inr \<lceil>position\<rceil>)))"

text \<open>
  \<open>_calc_ci_block\<close>. The result is the tuple
  \<open>(block_label, istate, jstate, (start_iter, stop_iter, expected, ci_lbound, ci_ubound, ctime))\<close>.
  \<open>ctime\<close> is what \<open>mcbs_correltime\<close> returns; \<open>nstates\<close> is the attribute of that name of
  the assignments file. The exceptions modelled, in the order the code meets them:
  \<open>numpy.empty\<close> with a negative dimension (\<open>niters\<close>), \<open>macro_fluxes[istate, jstate]\<close>
  on an array of shape \<open>(niters, nstates, nstates)\<close>, the two positions, \<open>numpy.empty\<close>
  with a negative \<open>mcbs_nsets\<close>, and the reads \<open>synth_rates[lbi]\<close>, \<open>synth_rates[ubi]\<close>.
\<close>

type_synonym ci_tuple = "int \<times> int \<times> real \<times> real \<times> real \<times> nat"

definition calc_ci_block ::
  "(int list \<Rightarrow> real) \<Rightarrow> nat \<Rightarrow> (nat \<Rightarrow> nat \<Rightarrow> nat) \<Rightarrow> nat \<Rightarrow> 'l \<Rightarrow> nat \<Rightarrow> nat \<Rightarrow> int \<Rightarrow> int \<Rightarrow>
   real \<Rightarrow> int \<Rightarrow> py_error + ('l \<times> nat \<times> nat \<times> ci_tuple)" where
  "calc_ci_block rate_of ctime randint nstates block_label istate jstate start_iter stop_iter
       mcbs_alpha mcbs_nsets =
     (let niters = stop_iter - start_iter in
      if niters < 0 then Inl ValueError
      else
        let overall_avg_rate = rate_of (range_up start_iter stop_iter 1) in
        if \<not> (int istate < niters \<and> jstate < nstates) then Inl IndexError
        else
          (case lbi mcbs_nsets mcbs_alpha of
             Inl e \<Rightarrow> Inl e
           | Inr lower \<Rightarrow>
          (case ubi mcbs_nsets mcbs_alpha of
             Inl e \<Rightarrow> Inl e
           | Inr upper \<Rightarrow>
          let stride = int ctime + 1 in
          if mcbs_nsets < 0 then Inl ValueError
          else
            (case bootstrap_blocks start_iter stop_iter stride of
               Inl e \<Rightarrow> Inl e
             | Inr (starts, stops) \<Rightarrow>
                 (case synth_rates rate_of randint starts stops mcbs_nsets of
                    Inl e \<Rightarrow> Inl e
                  | Inr synth \<Rightarrow>
                      (case np_get (sort synth) lower of
                         Inl e \<Rightarrow> Inl e
                       | Inr lb \<Rightarrow>
                           (case np_get (sort synth) upper of
                              Inl e \<Rightarrow> Inl e
                            | Inr ub \<Rightarrow>
                                Inr (block_label, istate, jstate,
                                     (start_iter, stop_iter, overall_avg_rate, lb, ub, ctime)))))))))"

text \<open>
  \<open>KinAvgSubcommands.process_args\<close>, lines 142-144: the three bootstrap parameters.
  \<open>args.acalpha\<close> and \<open>args.nsets\<close> are \<open>None\<close> when the option is absent; \<open>None\<close> and zero
  are both false in Python. \<open>bssize\<close> is the value of \<open>mclib.get_bssize(self.mcbs_alpha)\<close>; that function
  is not part of the files embedded here.
\<close>

record mcbs_config =
  mcbs_alpha :: real
  mcbs_acalpha :: real
  mcbs_nsets :: int

definition process_args_mcbs :: "int \<Rightarrow> real \<Rightarrow> real option \<Rightarrow> int option \<Rightarrow> mcbs_config" where
  "process_args_mcbs bssize alpha acalpha nsets =
     \<lparr>mcbs_alpha = alpha,
      mcbs_acalpha = (case acalpha of None \<Rightarrow> alpha | Some a \<Rightarrow> if a \<noteq> 0 then a else alpha),
      mcbs_nsets = (case nsets of None \<Rightarrow> bssize | Some n \<Rightarrow> if n \<noteq> 0 then n else bssize)\<rparr>"

text \<open>
  The partition the specification describes: block \<open>k\<close> of the window
  \<open>[start_iter, stop_iter)\<close> cut into blocks of length \<open>stride\<close>, the last one ending at
  \<open>stop_iter\<close>.
\<close>

definition nth_block_start :: "int \<Rightarrow> int \<Rightarrow> nat \<Rightarrow> int" where
  "nth_block_start start_iter stride k = start_iter + int k * stride"

definition nth_block_stop :: "int \<Rightarrow> int \<Rightarrow> int \<Rightarrow> nat \<Rightarrow> int" where
  "nth_block_stop start_iter stop_iter stride k = min (start_iter + (int k + 1) * stride) stop_iter"

definition nth_block_len :: "int \<Rightarrow> int \<Rightarrow> int \<Rightarrow> nat \<Rightarrow> int" where
  "nth_block_len start_iter stop_iter stride k =
     nth_block_stop start_iter stop_iter stride k - nth_block_start start_iter stride k"

text \<open>
  Concrete stand-ins for the parts outside these files, used to run the embedded code on
  explicit inputs: a rate that is the mean of the iteration numbers read, a rate that
  counts the iterations read, and two fixed sequences of draws.
\<close>

definition mean_rate :: "int list \<Rightarrow> real" where
  "mean_rate its = of_int (sum_list its) / of_nat (length its)"

definition same_block :: "nat \<Rightarrow> nat \<Rightarrow> nat" where
  "same_block iset b = iset mod 3"

definition iters_averaged :: "int list \<Rightarrow> real" where
  "iters_averaged its = of_nat (length its)"

definition last_of_three :: "nat \<Rightarrow> nat \<Rightarrow> nat" where
  "last_of_three iset b = 2"

section \<open>Scattering results into the output arrays\<close>

text \<open>
  A three-dimensional numpy array as nested lists, and the assignment
  \<open>a[i, j, k] = v\<close>, which raises \<open>IndexError\<close> outside the array. The indices that occur
  are loop counters and are never negative.
\<close>

definition zeros3 :: "nat \<Rightarrow> nat \<Rightarrow> nat \<Rightarrow> 'a \<Rightarrow> 'a list list list" where
  "zeros3 n1 n2 n3 z = replicate n1 (replicate n2 (replicate n3 z))"

definition set3 :: "'a list list list \<Rightarrow> nat \<Rightarrow> nat \<Rightarrow> nat \<Rightarrow> 'a \<Rightarrow> py_error + 'a list list list" where
  "set3 a i j k v =
     (if i < length a \<and> j < length (a ! i) \<and> k < length (a ! i ! j)
      then Inr (a[i := (a ! i)[j := (a ! i ! j)[k := v]]])
      else Inl IndexError)"

text \<open>
  The loop of \<open>AvgMatrixSubcommand.go\<close>, lines 624-629, over the futures in the order
  \<open>as_completed\<close> yields them. A future is represented by what \<open>get_result\<close> does with it:
  it returns the tuple the unit returned, or raises the exception the unit raised (the
  work manager itself is outside these files). The loop has no handler, so an exception
  ends it.
\<close>

fun consume_evol ::
  "(py_error + (nat \<times> nat \<times> nat \<times> 'c)) list \<Rightarrow> 'c list list list \<Rightarrow> py_error + 'c list list list" where
  "consume_evol [] evol = Inr evol"
| "consume_evol (future # rest) evol =
     (case future of
        Inl e \<Rightarrow> Inl e
      | Inr (iblock, istate, jstate, ci_result) \<Rightarrow>
          (case set3 evol iblock istate jstate ci_result of
             Inl e \<Rightarrow> Inl e
           | Inr evol' \<Rightarrow> consume_evol rest evol'))"



text \<open>The same for a two-dimensional array.\<close>

definition zeros2 :: "nat \<Rightarrow> nat \<Rightarrow> 'a \<Rightarrow> 'a list list" where
  "zeros2 n1 n2 z = replicate n1 (replicate n2 z)"

definition set2 :: "'a list list \<Rightarrow> nat \<Rightarrow> nat \<Rightarrow> 'a \<Rightarrow> py_error + 'a list list" where
  "set2 a i j v =
     (if i < length a \<and> j < length (a ! i)
      then Inr (a[i := (a ! i)[j := v]])
      else Inl IndexError)"

text \<open>
  The loop of \<open>AvgMatrixSubcommand.go\<close>, lines 578-580, which stores the whole-range
  averages; the block label of the result is not used.
\<close>

fun consume_avg ::
  "(py_error + ('l \<times> nat \<times> nat \<times> 'c)) list \<Rightarrow> 'c list list \<Rightarrow> py_error + 'c list list" where
  "consume_avg [] avg_rates = Inr avg_rates"
| "consume_avg (future # rest) avg_rates =
     (case future of
        Inl e \<Rightarrow> Inl e
      | Inr (iblock_unused, istate, jstate, ci_result) \<Rightarrow>
          (case set2 avg_rates istate jstate ci_result of
             Inl e \<Rightarrow> Inl e
           | Inr avg_rates' \<Rightarrow> consume_avg rest avg_rates'))"

section \<open>The output file\<close>

text \<open>
  The HDF5 output file as a map from dataset names to datasets; a dataset has its data
  and its attributes. Creating a dataset under a name that exists raises; a new dataset
  has no attributes. The file is opened with mode \<open>w\<close>, so it starts empty.
\<close>

datatype attr_value = AttrFloat real | AttrInt int

datatype 'c content =
  Arr1 "'c list" | Arr2 "'c list list" | Arr3 "'c list list list" | Labels "string list"

record 'c dataset =
  content :: "'c content"
  attrs :: "string \<rightharpoonup> attr_value"

type_synonym 'c h5file = "string \<rightharpoonup> 'c dataset"

definition create_dataset :: "'c h5file \<Rightarrow> string \<Rightarrow> 'c content \<Rightarrow> py_error + 'c h5file" where
  "create_dataset file name d =
     (case file name of
        Some _ \<Rightarrow> Inl ValueError
      | None \<Rightarrow> Inr (file(name \<mapsto> \<lparr>content = d, attrs = Map.empty\<rparr>)))"

text \<open>\<open>KinAvgSubcommands.stamp_mcbs_info\<close>, lines 65-68.\<close>

definition stamp_mcbs_info :: "'s mcbs_config_scheme \<Rightarrow> 'c dataset \<Rightarrow> 'c dataset" where
  "stamp_mcbs_info self ds =
     ds\<lparr>attrs := (attrs ds)(''mcbs_alpha'' \<mapsto> AttrFloat (mcbs_alpha self),
                             ''mcbs_acalpha'' \<mapsto> AttrFloat (mcbs_acalpha self),
                             ''mcbs_nsets'' \<mapsto> AttrInt (mcbs_nsets self))\<rparr>"

text \<open>\<open>self.stamp_mcbs_info(self.output_file[name])\<close>: a missing name raises \<open>KeyError\<close>.\<close>

definition stamp_named :: "'s mcbs_config_scheme \<Rightarrow> 'c h5file \<Rightarrow> string \<Rightarrow> py_error + 'c h5file" where
  "stamp_named self file name =
     (case file name of
        None \<Rightarrow> Inl KeyError
      | Some ds \<Rightarrow> Inr (file(name \<mapsto> stamp_mcbs_info self ds)))"

text \<open>
  The attributes of \<open>self\<close> that the \<open>go\<close> methods read, with the values they have when
  \<open>go\<close> starts; \<open>iter_range_start\<close> is \<open>self.iter_range.iter_start\<close>, and likewise for
  \<open>iter_stop\<close> and \<open>iter_step\<close>.
\<close>

datatype ci_type = Bootstrap | Block

record kinavg_self = mcbs_config +
  ci_type :: ci_type
  evolution_mode :: evolution_mode
  evol_window_frac :: real
  iter_range_start :: int
  iter_range_stop :: int
  iter_range_step :: int
  nstates :: nat
  state_labels :: "string list"

text \<open>
  The pairs \<open>(istate, jstate)\<close>, \<open>istate \<noteq> jstate\<close>, in the order of the two nested loops.
\<close>

definition state_pairs :: "nat \<Rightarrow> (nat \<times> nat) list" where
  "state_pairs n = filter (\<lambda>(istate, jstate). istate \<noteq> jstate) (List.product [0..<n] [0..<n])"

text \<open>
  The units of evolution work \<open>AvgMatrixSubcommand.go\<close> submits (lines 604-620), in
  submission order: for every state pair, every window. \<open>unit iblock istate jstate
  block_start stop\<close> is the outcome of the submitted call of \<open>_calc_ci_block\<close>.
\<close>

definition submit_evol ::
  "(nat \<Rightarrow> nat \<Rightarrow> nat \<Rightarrow> int \<Rightarrow> int \<Rightarrow> 'f) \<Rightarrow> nat \<Rightarrow> (nat \<times> int \<times> int) list \<Rightarrow> 'f list" where
  "submit_evol unit n windows =
     concat (map (\<lambda>(istate, jstate).
                    map (\<lambda>(iblock, block_start, stop). unit iblock istate jstate block_start stop)
                        windows)
                 (state_pairs n))"

text \<open>
  \<open>AvgMatrixSubcommand.go\<close>: the effect on the output file and the exception raised, if
  any. \<open>avg_unit istate jstate\<close> and \<open>evol_unit iblock istate jstate block_start stop\<close> are
  the outcomes of the submitted units; \<open>avg_order\<close> and \<open>evol_order\<close> are the orders in
  which \<open>as_completed\<close> yields the futures; \<open>zero\<close> is the all-zero record of
  \<open>numpy.zeros\<close>. Printing is left out, except that \<open>max(map(len, state_labels))\<close> raises
  \<open>ValueError\<close> on an empty sequence. The windows are computed inside the loops over
  \<open>istate\<close> and \<open>jstate\<close>, once more for each pair: with no pair of different states none
  is computed and nothing is submitted.
\<close>

definition go_matrix ::
  "kinavg_self \<Rightarrow> 'c \<Rightarrow>
   (nat \<Rightarrow> nat \<Rightarrow> py_error + ('l \<times> nat \<times> nat \<times> 'c)) \<Rightarrow>
   (nat \<Rightarrow> nat \<Rightarrow> nat \<Rightarrow> int \<Rightarrow> int \<Rightarrow> py_error + (nat \<times> nat \<times> nat \<times> 'c)) \<Rightarrow>
   ((py_error + ('l \<times> nat \<times> nat \<times> 'c)) list \<Rightarrow> (py_error + ('l \<times> nat \<times> nat \<times> 'c)) list) \<Rightarrow>
   ((py_error + (nat \<times> nat \<times> nat \<times> 'c)) list \<Rightarrow> (py_error + (nat \<times> nat \<times> nat \<times> 'c)) list) \<Rightarrow>
   'c h5file \<Rightarrow> py_error option \<times> 'c h5file" where
  "go_matrix self zero avg_unit evol_unit avg_order evol_order file0 =
     (let n = nstates self;
          futures = map (\<lambda>(istate, jstate). avg_unit istate jstate) (state_pairs n)
      in case consume_avg (avg_order futures) (zeros2 n n zero) of
           Inl e \<Rightarrow> (Some e, file0)
         | Inr avg_rates \<Rightarrow>
        (case create_dataset file0 ''avg_rates'' (Arr2 avg_rates) of
           Inl e \<Rightarrow> (Some e, file0)
         | Inr file1 \<Rightarrow>
        (case stamp_named self file1 ''avg_rates'' of
           Inl e \<Rightarrow> (Some e, file1)
         | Inr file2 \<Rightarrow>
        if state_labels self = [] then (Some ValueError, file2)
        else if evolution_mode self = NoEvolution \<or> iter_range_step self = 0 then (None, file2)
        else
        (case py_range (iter_range_start self) (iter_range_stop self) (iter_range_step self) of
           Inl e \<Rightarrow> (Some e, file2)
         | Inr start_pts \<Rightarrow>
        (case (if state_pairs n = [] then Inr []
               else evol_windows (evolution_mode self) (evol_window_frac self)
                      (iter_range_start self) (iter_range_stop self) (iter_range_step self)) of
           Inl e \<Rightarrow> (Some e, file2)
         | Inr windows \<Rightarrow>
        (case consume_evol (evol_order (submit_evol evol_unit n windows))
                (zeros3 (length start_pts) n n zero) of
           Inl e \<Rightarrow> (Some e, file2)
         | Inr evol \<Rightarrow>
        (case create_dataset file2 ''rate_evolution'' (Arr3 evol) of
           Inl e \<Rightarrow> (Some e, file2)
         | Inr file3 \<Rightarrow>
        (case stamp_named self file3 ''rate_evolution'' of
           Inl e \<Rightarrow> (Some e, file3)
         | Inr file4 \<Rightarrow> (None, file4)))))))))"

text \<open>Explicit inputs for running \<open>go\<close>: two states, two blocked windows.\<close>

definition demo_self :: kinavg_self where
  "demo_self = \<lparr>mcbs_alpha = 1 / 2, mcbs_acalpha = 1 / 2, mcbs_nsets = 4,
      ci_type = Bootstrap, evolution_mode = Blocked, evol_window_frac = 1,
      iter_range_start = 0, iter_range_stop = 10, iter_range_step = 5, nstates = 2,
      state_labels = [''a'', ''b'']\<rparr>"

definition demo_avg_unit :: "nat \<Rightarrow> nat \<Rightarrow> py_error + (unit \<times> nat \<times> nat \<times> int \<times> int)" where
  "demo_avg_unit istate jstate = Inr ((), istate, jstate, (0, 10))"

definition demo_evol_unit ::
  "nat \<Rightarrow> nat \<Rightarrow> nat \<Rightarrow> int \<Rightarrow> int \<Rightarrow> py_error + (nat \<times> nat \<times> nat \<times> int \<times> int)" where
  "demo_evol_unit iblock istate jstate block_start stop =
     Inr (iblock, istate, jstate, (block_start, stop))"

definition demo_failing_unit ::
  "nat \<Rightarrow> nat \<Rightarrow> nat \<Rightarrow> int \<Rightarrow> int \<Rightarrow> py_error + (nat \<times> nat \<times> nat \<times> int \<times> int)" where
  "demo_failing_unit iblock istate jstate block_start stop =
     (if (iblock, istate, jstate) = (1, 0, 1) then Inl UnitFailure
      else Inr (iblock, istate, jstate, (block_start, stop)))"

section \<open>Block averaging (w_kinavg.py, \<open>_eval_block_avg\<close>)\<close>

text \<open>
  Modelled from the spec: the structured dtype \<open>iter_block_ci_dtype\<close> of
  \<open>westtools.dtypes\<close>, which is not among the source files. Its fields are those of the
  output record layout; \<open>_eval_block_avg\<close> assigns each of them by name.
\<close>

record ci_record =
  iter_start :: int
  iter_stop :: int
  expected :: real
  ci_lbound :: real
  ci_ubound :: real
  stdev :: real
  variance :: real
  corr_len :: int

text \<open>An element of \<open>numpy.zeros(shape, dtype=ci_dtype)\<close>.\<close>

definition zero_ci :: ci_record where
  "zero_ci = \<lparr>iter_start = 0, iter_stop = 0, expected = 0, ci_lbound = 0, ci_ubound = 0,
              stdev = 0, variance = 0, corr_len = 0\<rparr>"

text \<open>
  A dataset sliced to a window: \<open>n_iter\<close> is \<open>len(dataset)\<close> and \<open>val d t istate jstate\<close> is
  \<open>dataset[t, istate, jstate]\<close> (for the total fluxes, \<open>dataset[t, istate]\<close>, whatever
  \<open>jstate\<close>). The state indices are taken to lie inside the array.
\<close>

record iter_data =
  n_iter :: nat
  val :: "nat \<Rightarrow> nat \<Rightarrow> nat \<Rightarrow> real"

text \<open>
  \<open>numpy.mean\<close>, \<open>numpy.var\<close> and \<open>numpy.std\<close> of a non-empty sequence (on an empty one
  numpy returns nan; the sequences below are never empty), and \<open>numpy.sqrt\<close>. The square
  root has no code equation: terms with it stay as they are under evaluation.
\<close>

definition np_mean :: "real list \<Rightarrow> real" where
  "np_mean xs = sum_list xs / of_nat (length xs)"

definition np_var :: "real list \<Rightarrow> real" where
  "np_var xs = np_mean (map (\<lambda>x. (x - np_mean xs) ^ 2) xs)"

definition np_sqrt :: "real \<Rightarrow> real" where
  "np_sqrt x = sqrt x"

declare np_sqrt_def [code del]

definition np_std :: "real list \<Rightarrow> real" where
  "np_std xs = np_sqrt (np_var xs)"

text \<open>
  Lines 204-213: \<open>datalist\<close>, the means of the \<open>int(len(dataset) / blocksize)\<close> consecutive
  blocks of \<open>blocksize\<close> iterations.
\<close>

definition datalist :: "iter_data \<Rightarrow> nat \<Rightarrow> nat \<Rightarrow> nat \<Rightarrow> real list" where
  "datalist d istate jstate blocksize =
     map (\<lambda>i. np_mean (map (\<lambda>t. val d t istate jstate) [blocksize * i..<blocksize * (i + 1)]))
         [0..<n_iter d div blocksize]"

text \<open>Lines 215-222: the eight fields assigned at \<open>[blocksize - 1, istate, jstate]\<close>.\<close>

definition block_record :: "int \<Rightarrow> int \<Rightarrow> iter_data \<Rightarrow> nat \<Rightarrow> nat \<Rightarrow> nat \<Rightarrow> ci_record" where
  "block_record start stop d istate jstate blocksize =
     \<lparr>iter_start = start, iter_stop = stop,
      expected = np_mean (datalist d istate jstate blocksize),
      ci_lbound = 0, ci_ubound = 0,
      stdev = np_std (datalist d istate jstate blocksize)
                / np_sqrt (of_nat (n_iter d div blocksize)),
      variance = np_var (datalist d istate jstate blocksize),
      corr_len = int blocksize\<rparr>"

text \<open>
  The assignments of the three inner loops for one dataset, in loop order: the pairs
  \<open>(istate, jstate)\<close> with \<open>istate\<close> outermost, then \<open>blocksize\<close> in
  \<open>xrange(1, int(len(dataset)/2) - 1)\<close>.
\<close>

definition block_cells ::
  "int \<Rightarrow> int \<Rightarrow> nat \<Rightarrow> iter_data \<Rightarrow> (nat \<times> nat \<times> nat \<times> ci_record) list" where
  "block_cells start stop n d =
     concat (map (\<lambda>(istate, jstate).
               map (\<lambda>blocksize.
                      (blocksize - 1, istate, jstate,
                       block_record start stop d istate jstate blocksize))
                   [1..<n_iter d div 2 - 1])
             (List.product [0..<n] [0..<n]))"

text \<open>Storing a list of assignments into an array, stopping at the first \<open>IndexError\<close>.\<close>

fun fill_cells :: "(nat \<times> nat \<times> nat \<times> 'c) list \<Rightarrow> 'c list list list \<Rightarrow> py_error + 'c list list list" where
  "fill_cells [] a = Inr a"
| "fill_cells ((i, j, k, v) # cells) a =
     (case set3 a i j k v of Inl e \<Rightarrow> Inl e | Inr a' \<Rightarrow> fill_cells cells a')"

text \<open>
  \<open>_eval_block_avg\<close>: the three result arrays, each with \<open>int(len(rates)/2)\<close> rows, and
  \<open>stop\<close>. The datasets are handled in the order total fluxes, conditional fluxes,
  rates.
\<close>

definition eval_block_avg ::
  "int \<Rightarrow> int \<Rightarrow> nat \<Rightarrow> iter_data \<Rightarrow> iter_data \<Rightarrow> iter_data \<Rightarrow>
   py_error + (ci_record list list list \<times> ci_record list list list \<times> ci_record list list list \<times> int)" where
  "eval_block_avg start stop n total_fluxes cond_fluxes rates =
     (let zeros = zeros3 (n_iter rates div 2) n n zero_ci in
      case fill_cells (block_cells start stop n total_fluxes) zeros of
        Inl e \<Rightarrow> Inl e
      | Inr res0 \<Rightarrow>
     (case fill_cells (block_cells start stop n cond_fluxes) zeros of
        Inl e \<Rightarrow> Inl e
      | Inr res1 \<Rightarrow>
     (case fill_cells (block_cells start stop n rates) zeros of
        Inl e \<Rightarrow> Inl e
      | Inr res2 \<Rightarrow> Inr (res0, res1, res2, stop))))"



section \<open>The trace subcommand (w_kinavg.py, \<open>AvgTraceSubcommand.go\<close>)\<close>

text \<open>
  \<open>scipy.stats.sem\<close>, passed as estimator in \<open>_eval_block\<close> and in
  \<open>AvgTraceSubcommand.go\<close>. The module imports \<open>sys\<close>, \<open>random\<close>, \<open>math\<close>, \<open>numpy\<close>,
  \<open>h5py\<close> and names from \<open>westpa\<close>, \<open>west\<close>, \<open>westtools\<close> and \<open>mclib\<close>, but never binds
  the name \<open>scipy\<close>: evaluating the expression raises \<open>NameError\<close>.
\<close>

definition scipy_stats_sem :: "py_error + unit" where
  "scipy_stats_sem = Inl NameError"

text \<open>
  The three quantities averaged. \<open>mcbs q start stop istate jstate\<close> stands for the record
  built from the results of \<open>mcbs_ci_correl\<close> (outside these files) on the slice
  \<open>[start, stop)\<close> of quantity \<open>q\<close> for \<open>istate\<close> (and \<open>jstate\<close>).
\<close>

datatype quantity = TotalFlux | CondFlux | Rate

text \<open>
  Lines 271-301: the loop over the pairs \<open>istate \<noteq> jstate\<close>. The third call of
  \<open>mcbs_ci_correl\<close> in the body needs \<open>scipy.stats.sem\<close>.
\<close>

fun avg_pairs ::
  "(nat \<times> nat) list \<Rightarrow> (nat \<Rightarrow> nat \<Rightarrow> 'c) \<Rightarrow> (nat \<Rightarrow> nat \<Rightarrow> 'c) \<Rightarrow> 'c list list \<times> 'c list list \<Rightarrow>
   py_error + ('c list list \<times> 'c list list)" where
  "avg_pairs [] flux_rec rate_rec (avg_conditional_fluxes, avg_rates) =
     Inr (avg_conditional_fluxes, avg_rates)"
| "avg_pairs ((istate, jstate) # rest) flux_rec rate_rec (avg_conditional_fluxes, avg_rates) =
     (case scipy_stats_sem of
        Inl e \<Rightarrow> Inl e
      | Inr _ \<Rightarrow>
     (case set2 avg_conditional_fluxes istate jstate (flux_rec istate jstate) of
        Inl e \<Rightarrow> Inl e
      | Inr fluxes' \<Rightarrow>
     (case set2 avg_rates istate jstate (rate_rec istate jstate) of
        Inl e \<Rightarrow> Inl e
      | Inr rates' \<Rightarrow> avg_pairs rest flux_rec rate_rec (fluxes', rates'))))"

text \<open>
  \<open>_eval_block\<close>, lines 153-191: the three result lists of one window. The second call
  of \<open>mcbs_ci_correl\<close> for each \<open>istate\<close> needs \<open>scipy.stats.sem\<close>.
\<close>

type_synonym 'c trace_result =
  "(nat \<times> nat \<times> 'c) list \<times> (nat \<times> nat \<times> nat \<times> 'c) list \<times> (nat \<times> nat \<times> nat \<times> 'c) list"

fun eval_block_states ::
  "nat \<Rightarrow> nat \<Rightarrow> nat list \<Rightarrow> (nat \<Rightarrow> nat \<Rightarrow> 'c) \<Rightarrow> (nat \<Rightarrow> nat \<Rightarrow> 'c) \<Rightarrow> (nat \<Rightarrow> nat \<Rightarrow> 'c) \<Rightarrow>
   'c trace_result \<Rightarrow> py_error + 'c trace_result" where
  "eval_block_states iblock n [] total_rec flux_rec rate_rec results = Inr results"
| "eval_block_states iblock n (istate # rest) total_rec flux_rec rate_rec (r0, r1, r2) =
     (case scipy_stats_sem of
        Inl e \<Rightarrow> Inl e
      | Inr _ \<Rightarrow>
          eval_block_states iblock n rest total_rec flux_rec rate_rec
            (r0 @ [(iblock, istate, total_rec istate istate)],
             r1 @ map (\<lambda>jstate. (iblock, istate, jstate, flux_rec istate jstate))
                      (filter (\<lambda>jstate. jstate \<noteq> istate) [0..<n]),
             r2 @ map (\<lambda>jstate. (iblock, istate, jstate, rate_rec istate jstate))
                      (filter (\<lambda>jstate. jstate \<noteq> istate) [0..<n])))"

definition eval_block ::
  "nat \<Rightarrow> nat \<Rightarrow> (nat \<Rightarrow> nat \<Rightarrow> 'c) \<Rightarrow> (nat \<Rightarrow> nat \<Rightarrow> 'c) \<Rightarrow> (nat \<Rightarrow> nat \<Rightarrow> 'c) \<Rightarrow>
   py_error + 'c trace_result" where
  "eval_block iblock n total_rec flux_rec rate_rec =
     eval_block_states iblock n [0..<n] total_rec flux_rec rate_rec ([], [], [])"

text \<open>Storing a list of assignments \<open>a[i, j] = v\<close>.\<close>

fun fill_cells2 :: "(nat \<times> nat \<times> 'c) list \<Rightarrow> 'c list list \<Rightarrow> py_error + 'c list list" where
  "fill_cells2 [] a = Inr a"
| "fill_cells2 ((i, j, v) # cells) a =
     (case set2 a i j v of Inl e \<Rightarrow> Inl e | Inr a' \<Rightarrow> fill_cells2 cells a')"

text \<open>
  The loop of \<open>AvgTraceSubcommand.go\<close>, lines 382-395, over the futures in the order
  \<open>as_completed\<close> yields them.
\<close>

fun consume_trace ::
  "(py_error + 'c trace_result) list \<Rightarrow> 'c list list \<times> 'c list list list \<times> 'c list list list \<Rightarrow>
   py_error + ('c list list \<times> 'c list list list \<times> 'c list list list)" where
  "consume_trace [] evols = Inr evols"
| "consume_trace (future # rest) (target_evol, flux_evol, rate_evol) =
     (case future of
        Inl e \<Rightarrow> Inl e
      | Inr (target_results, condflux_results, rate_results) \<Rightarrow>
     (case fill_cells2 target_results target_evol of
        Inl e \<Rightarrow> Inl e
      | Inr target_evol' \<Rightarrow>
     (case fill_cells condflux_results flux_evol of
        Inl e \<Rightarrow> Inl e
      | Inr flux_evol' \<Rightarrow>
     (case fill_cells rate_results rate_evol of
        Inl e \<Rightarrow> Inl e
      | Inr rate_evol' \<Rightarrow> consume_trace rest (target_evol', flux_evol', rate_evol')))))"

text \<open>Python's \<open>str\<close> of an integer.\<close>

fun str_nat :: "nat \<Rightarrow> string" where
  "str_nat n = (if n < 10 then [char_of (48 + n)] else str_nat (n div 10) @ [char_of (48 + n mod 10)])"

declare str_nat.simps [simp del]

definition py_str :: "int \<Rightarrow> string" where
  "py_str i = (if i < 0 then CHR ''-'' # str_nat (nat (- i)) else str_nat (nat i))"

text \<open>
  Steps on the output file: a step returns the exception it raised, if any, and the file
  it leaves behind; a sequence of steps stops at the first exception.
\<close>

type_synonym 'c step = "'c h5file \<Rightarrow> py_error option \<times> 'c h5file"

definition write_ds :: "string \<Rightarrow> 'c content \<Rightarrow> 'c step" where
  "write_ds name d file =
     (case create_dataset file name d of Inl e \<Rightarrow> (Some e, file) | Inr file' \<Rightarrow> (None, file'))"

definition stamp_ds :: "'s mcbs_config_scheme \<Rightarrow> string \<Rightarrow> 'c step" where
  "stamp_ds self name file =
     (case stamp_named self file name of Inl e \<Rightarrow> (Some e, file) | Inr file' \<Rightarrow> (None, file'))"

fun run_steps :: "'c step list \<Rightarrow> 'c step" where
  "run_steps [] file = (None, file)"
| "run_steps (step # steps) file =
     (case step file of (Some e, file') \<Rightarrow> (Some e, file') | (None, file') \<Rightarrow> run_steps steps file')"

text \<open>
  Lines 407-424: the loop of the block-averaging mode. Each result is written as three
  datasets whose names end in the window's \<open>stop\<close>; \<open>istate\<close> is the value the variable
  kept from the loops before, \<open>nstates - 1\<close>. The call that would stamp the datasets is
  commented out in the source.
\<close>

definition save_block_result ::
  "nat \<Rightarrow> ci_record list list list \<times> ci_record list list list \<times> ci_record list list list \<times> int \<Rightarrow>
   ci_record step" where
  "save_block_result istate result =
     (case result of (target_results, condflux_results, rate_results, stop) \<Rightarrow>
        run_steps
          [write_ds (''block_avg_conditional_flux '' @ py_str (int istate) @ '' final '' @ py_str stop)
             (Arr3 condflux_results),
           write_ds (''block_avg_target_flux '' @ py_str (int istate) @ '' final '' @ py_str stop)
             (Arr3 target_results),
           write_ds (''block_avg rate final '' @ py_str stop) (Arr3 rate_results)])"

fun save_block_results ::
  "nat \<Rightarrow>
   (py_error + ci_record list list list \<times> ci_record list list list \<times> ci_record list list list \<times> int) list \<Rightarrow>
   ci_record step" where
  "save_block_results istate [] file = (None, file)"
| "save_block_results istate (future # rest) file =
     (case future of
        Inl e \<Rightarrow> (Some e, file)
      | Inr result \<Rightarrow>
          (case save_block_result istate result file of
             (Some e, file') \<Rightarrow> (Some e, file')
           | (None, file') \<Rightarrow> save_block_results istate rest file'))"

text \<open>
  \<open>AvgTraceSubcommand.go\<close>: the effect on the output file and the exception raised, if
  any. \<open>iter_slice block_start stop\<close> gives the three datasets sliced to a window;
  \<open>boot_order\<close> and \<open>block_order\<close> are the orders in which \<open>as_completed\<close> yields the
  futures. Printing is left out, except that \<open>max(map(len, state_labels))\<close> raises
  \<open>ValueError\<close> on an empty sequence.
\<close>

definition go_trace ::
  "kinavg_self \<Rightarrow> (quantity \<Rightarrow> int \<Rightarrow> int \<Rightarrow> nat \<Rightarrow> nat \<Rightarrow> ci_record) \<Rightarrow>
   (int \<Rightarrow> int \<Rightarrow> iter_data \<times> iter_data \<times> iter_data) \<Rightarrow>
   ((py_error + ci_record trace_result) list \<Rightarrow> (py_error + ci_record trace_result) list) \<Rightarrow>
   ((py_error + ci_record list list list \<times> ci_record list list list \<times> ci_record list list list \<times> int) list \<Rightarrow>
    (py_error + ci_record list list list \<times> ci_record list list list \<times> ci_record list list list \<times> int) list) \<Rightarrow>
   ci_record step" where
  "go_trace self mcbs iter_slice boot_order block_order file0 =
     (let n = nstates self;
          start_iter = iter_range_start self; stop_iter = iter_range_stop self;
          avg_total_fluxes = map (\<lambda>istate. mcbs TotalFlux start_iter stop_iter istate istate) [0..<n]
      in case avg_pairs (state_pairs n) (mcbs CondFlux start_iter stop_iter)
                (mcbs Rate start_iter stop_iter) (zeros2 n n zero_ci, zeros2 n n zero_ci) of
           Inl e \<Rightarrow> (Some e, file0)
         | Inr (avg_conditional_fluxes, avg_rates) \<Rightarrow>
        (case run_steps
                [write_ds ''avg_rates'' (Arr2 avg_rates),
                 write_ds ''avg_conditional_fluxes'' (Arr2 avg_conditional_fluxes),
                 write_ds ''avg_total_fluxes'' (Arr1 avg_total_fluxes),
                 stamp_ds self ''avg_rates'',
                 stamp_ds self ''avg_conditional_fluxes'',
                 stamp_ds self ''avg_total_fluxes'',
                 write_ds ''state_labels'' (Labels (state_labels self))] file0 of
           (Some e, file1) \<Rightarrow> (Some e, file1)
         | (None, file1) \<Rightarrow>
        if state_labels self = [] then (Some ValueError, file1)
        else if evolution_mode self = NoEvolution \<or> iter_range_step self = 0 then (None, file1)
        else
        (case evol_windows (evolution_mode self) (evol_window_frac self)
                start_iter stop_iter (iter_range_step self) of
           Inl e \<Rightarrow> (Some e, file1)
         | Inr windows \<Rightarrow>
        (case ci_type self of
           Bootstrap \<Rightarrow>
             (case consume_trace
                     (boot_order (map (\<lambda>(iblock, block_start, stop).
                                         eval_block iblock n (mcbs TotalFlux block_start stop)
                                           (mcbs CondFlux block_start stop)
                                           (mcbs Rate block_start stop))
                                      windows))
                     (zeros2 (length windows) n zero_ci,
                      zeros3 (length windows) n n zero_ci,
                      zeros3 (length windows) n n zero_ci) of
                Inl e \<Rightarrow> (Some e, file1)
              | Inr (target_evol, flux_evol, rate_evol) \<Rightarrow>
                  run_steps
                    [write_ds ''conditional_flux_evolution'' (Arr3 flux_evol),
                     write_ds ''target_flux_evolution'' (Arr2 target_evol),
                     write_ds ''rate_evolution'' (Arr3 rate_evol),
                     stamp_ds self ''conditional_flux_evolution'',
                     stamp_ds self ''target_flux_evolution'',
                     stamp_ds self ''rate_evolution''] file1)
         | Block \<Rightarrow>
             save_block_results (n - 1)
               (block_order (map (\<lambda>(iblock, block_start, stop).
                                    case iter_slice block_start stop of
                                      (total_fluxes, cond_fluxes, rates) \<Rightarrow>
                                        eval_block_avg block_start stop n
                                          total_fluxes cond_fluxes rates)
                                 windows))
               file1))))"

text \<open>Explicit inputs for a block-averaging run: one state, one window of four iterations.\<close>

definition demo_block_self :: kinavg_self where
  "demo_block_self = \<lparr>mcbs_alpha = 1 / 2, mcbs_acalpha = 1 / 2, mcbs_nsets = 4,
      ci_type = Block, evolution_mode = Blocked, evol_window_frac = 1,
      iter_range_start = 0, iter_range_stop = 4, iter_range_step = 4, nstates = 1,
      state_labels = [''a'']\<rparr>"

definition demo_mcbs :: "quantity \<Rightarrow> int \<Rightarrow> int \<Rightarrow> nat \<Rightarrow> nat \<Rightarrow> ci_record" where
  "demo_mcbs q start stop istate jstate = zero_ci\<lparr>iter_start := start, iter_stop := stop\<rparr>"

definition demo_slice :: "int \<Rightarrow> int \<Rightarrow> iter_data \<times> iter_data \<times> iter_data" where
  "demo_slice start stop =
     (let d = \<lparr>n_iter = nat (stop - start), val = (\<lambda>t istate jstate. of_nat t)\<rparr> in (d, d, d))"

text \<open>
  A dataset carrying the three attributes with the values of \<open>self\<close>, and the names of the
  datasets of confidence-interval records that the program's description lists.
\<close>

definition stamped :: "'s mcbs_config_scheme \<Rightarrow> 'c dataset \<Rightarrow> bool" where
  "stamped self ds =
     (attrs ds ''mcbs_alpha'' = Some (AttrFloat (mcbs_alpha self))
      \<and> attrs ds ''mcbs_acalpha'' = Some (AttrFloat (mcbs_acalpha self))
      \<and> attrs ds ''mcbs_nsets'' = Some (AttrInt (mcbs_nsets self)))"

definition ci_names :: "string list" where
  "ci_names = [''avg_rates'', ''avg_conditional_fluxes'', ''avg_total_fluxes'',
               ''conditional_flux_evolution'', ''target_flux_evolution'', ''rate_evolution'']"

text \<open>
  The value of attribute \<open>key\<close> of the dataset \<open>name\<close>: \<open>None\<close> when the file has no such
  dataset, \<open>Some None\<close> when the dataset lacks the attribute.
\<close>

definition attr_of :: "'c h5file \<Rightarrow> string \<Rightarrow> string \<Rightarrow> attr_value option option" where
  "attr_of file name key = (case file name of None \<Rightarrow> None | Some ds \<Rightarrow> Some (attrs ds key))"

text \<open>
  The state of the output file the amended claim describes: the listed datasets carry the
  attributes, every other dataset carries none.
\<close>

definition stamp_inv :: "'s mcbs_config_scheme \<Rightarrow> 'c h5file \<Rightarrow> bool" where
  "stamp_inv self file =
     (\<forall>name ds. file name = Some ds \<longrightarrow>
        (if name \<in> set ci_names then stamped self ds else attrs ds = Map.empty))"

text \<open>The output file of the trace subcommand once the averages are saved.\<close>

definition averages_file ::
  "kinavg_self \<Rightarrow> ci_record list list \<Rightarrow> ci_record list list \<Rightarrow> ci_record list \<Rightarrow> ci_record h5file" where
  "averages_file self avg_rates avg_conditional_fluxes avg_total_fluxes =
     Map.empty
       (''avg_rates'' \<mapsto> stamp_mcbs_info self \<lparr>content = Arr2 avg_rates, attrs = Map.empty\<rparr>,
        ''avg_conditional_fluxes'' \<mapsto>
           stamp_mcbs_info self \<lparr>content = Arr2 avg_conditional_fluxes, attrs = Map.empty\<rparr>,
        ''avg_total_fluxes'' \<mapsto>
           stamp_mcbs_info self \<lparr>content = Arr1 avg_total_fluxes, attrs = Map.empty\<rparr>,
        ''state_labels'' \<mapsto> \<lparr>content = Labels (state_labels self), attrs = Map.empty\<rparr>)"




section \<open>Properties of float rounding\<close>

lemma round_half_even_of_int: "round_half_even (of_int n) = n"
  by (simp add: round_half_even_def)

lemma round_half_even_bounds:
  "\<lfloor>q\<rfloor> \<le> round_half_even q" "round_half_even q \<le> \<lfloor>q\<rfloor> + 1"
  by (simp_all add: round_half_even_def Let_def)

lemma round_half_even_mono:
  assumes "q \<le> q'"
  shows "round_half_even q \<le> round_half_even q'"
proof (cases "\<lfloor>q\<rfloor> = \<lfloor>q'\<rfloor>")
  case True
  then show ?thesis using assms by (auto simp: round_half_even_def Let_def)
next
  case False
  moreover have "\<lfloor>q\<rfloor> \<le> \<lfloor>q'\<rfloor>" using assms by (rule floor_mono)
  ultimately have "\<lfloor>q\<rfloor> + 1 \<le> \<lfloor>q'\<rfloor>" by simp
  then show ?thesis
    using round_half_even_bounds(2)[of q] round_half_even_bounds(1)[of q'] by linarith
qed

lemma round_half_even_minus: "round_half_even (- q) = - round_half_even q"
proof (cases "q = of_int \<lfloor>q\<rfloor>")
  case True
  then obtain n where "q = of_int n" ..
  then have "- q = of_int (- n)" by simp
  then show ?thesis unfolding \<open>q = of_int n\<close>
    by (metis round_half_even_of_int)
next
  case False
  then have f: "\<lfloor>- q\<rfloor> = - \<lfloor>q\<rfloor> - 1"
    by (simp add: floor_minus ceiling_altdef)
  show ?thesis
    unfolding round_half_even_def Let_def f by auto
qed

lemma float_rnd_mono: "y1 \<le> y2 \<Longrightarrow> float_rnd k y1 \<le> float_rnd k y2"
  unfolding float_rnd_def
  by (intro mult_right_mono round_half_even_mono divide_right_mono) (simp_all add: round_half_even_mono divide_right_mono)

lemma float_rnd_minus: "float_rnd k (- y) = - float_rnd k y"
  by (simp add: float_rnd_def round_half_even_minus)

lemma float_rnd_of_int: "float_rnd k (of_int n * 2 ^ k) = of_int n * 2 ^ k"
  by (simp add: float_rnd_def round_half_even_of_int)

lemma float_rnd_nonneg: "0 \<le> y \<Longrightarrow> 0 \<le> float_rnd k y"
  using float_rnd_mono[of 0 y k] float_rnd_of_int[of k 0] by simp

lemma float_rnd_upper:
  assumes "y \<le> 2 ^ (53 + k)"
  shows "float_rnd k y \<le> 2 ^ (53 + k)"
proof -
  have "float_rnd k y \<le> float_rnd k (of_int (2 ^ 53) * 2 ^ k)"
    using assms by (intro float_rnd_mono) (simp add: power_add)
  then show ?thesis unfolding float_rnd_of_int by (simp add: power_add)
qed

lemma float_rnd_lower:
  assumes "2 ^ (52 + k) \<le> y"
  shows "2 ^ (52 + k) \<le> float_rnd k y"
proof -
  have "float_rnd k (of_int (2 ^ 52) * 2 ^ k) \<le> float_rnd k y"
    using assms by (intro float_rnd_mono) (simp add: power_add)
  then show ?thesis unfolding float_rnd_of_int by (simp add: power_add)
qed

lemma float_ulp_minus: "float_ulp (- y) k = float_ulp y k"
  by (simp add: float_ulp_def)

lemma float_ulp_order:
  assumes "float_ulp y1 k1" "float_ulp y2 k2" "\<bar>y1\<bar> \<le> \<bar>y2\<bar>"
  shows "k1 \<le> k2"
proof (rule ccontr)
  assume "\<not> k1 \<le> k2"
  then have k: "53 + k2 \<le> 52 + k1" "k1 \<noteq> 0" by simp_all
  have "\<bar>y2\<bar> < 2 ^ (53 + k2)" using assms(2) by (simp add: float_ulp_def)
  also have "(2::real) ^ (53 + k2) \<le> 2 ^ (52 + k1)"
    using k(1) by (intro power_increasing) simp_all
  also have "\<dots> \<le> \<bar>y1\<bar>" using assms(1) k(2) by (simp add: float_ulp_def)
  finally show False using assms(3) by simp
qed

lemma float_ulp_unique: "float_ulp y k1 \<Longrightarrow> float_ulp y k2 \<Longrightarrow> k1 = k2"
  using float_ulp_order[of y k1 y k2] float_ulp_order[of y k2 y k1] by simp

lemma float_ulp_mono_nonneg:
  assumes "float_ulp y1 k1" "float_ulp y2 k2" "0 \<le> y1" "y1 \<le> y2"
  shows "float_rnd k1 y1 \<le> float_rnd k2 y2"
proof -
  have le: "k1 \<le> k2" using assms by (intro float_ulp_order[of y1 k1 y2 k2]) simp_all
  show ?thesis
  proof (cases "k1 = k2")
    case True
    then show ?thesis using assms(4) by (simp add: float_rnd_mono)
  next
    case False
    with le have k: "53 + k1 \<le> 52 + k2" "k2 \<noteq> 0" by simp_all
    have "y1 \<le> 2 ^ (53 + k1)" using assms(1,3) by (simp add: float_ulp_def)
    then have "float_rnd k1 y1 \<le> 2 ^ (53 + k1)" by (rule float_rnd_upper)
    also have "(2::real) ^ (53 + k1) \<le> 2 ^ (52 + k2)"
      using k(1) by (intro power_increasing) simp_all
    also have "\<dots> \<le> float_rnd k2 y2"
      using assms(2,3,4) k(2) by (intro float_rnd_lower) (simp add: float_ulp_def)
    finally show ?thesis .
  qed
qed

lemma float_rnd_fix_nonneg:
  assumes "float_ulp (of_int M * 2 ^ k) j" "0 \<le> M" "M \<le> 2 ^ 53"
  shows "float_rnd j (of_int M * 2 ^ k) = of_int M * 2 ^ k"
proof (cases "j \<le> k")
  case True
  then have "(2::real) ^ k = 2 ^ (k - j) * 2 ^ j"
    by (simp flip: power_add)
  then have "real_of_int M * 2 ^ k = of_int (M * 2 ^ (k - j)) * 2 ^ j" by simp
  then show ?thesis by (metis float_rnd_of_int)
next
  case False
  then have j: "j \<noteq> 0" "53 + k \<le> 52 + j" by simp_all
  have "(2::real) ^ (53 + k) \<le> 2 ^ (52 + j)"
    using j(2) by (intro power_increasing) simp_all
  also have "\<dots> \<le> \<bar>of_int M * 2 ^ k\<bar>" using assms(1) j(1) by (simp add: float_ulp_def)
  also have "\<dots> = of_int M * 2 ^ k" using assms(2) by simp
  finally have "(2::real) ^ 53 * 2 ^ k \<le> of_int M * 2 ^ k" by (simp add: power_add)
  then have "real_of_int (2 ^ 53) \<le> of_int M" by simp
  then have "(2::int) ^ 53 \<le> M" by (simp only: of_int_le_iff)
  with assms(3) have M: "M = 2 ^ 53" by simp
  have "2 ^ (52 + j) \<le> \<bar>real_of_int M * 2 ^ k\<bar>" using assms(1) j(1) by (simp add: float_ulp_def)
  then have "(2::real) ^ (52 + j) \<le> 2 ^ (53 + k)" unfolding M by (simp add: power_add)
  then have "52 + j \<le> 53 + k" by (simp only: power_increasing_iff one_less_numeral_iff semiring_norm)
  with j(2) have jk: "j = Suc k" by simp
  have "real_of_int M * 2 ^ k = of_int (2 ^ 52) * 2 ^ j" unfolding M jk by simp
  then show ?thesis by (metis float_rnd_of_int)
qed

lemma float_rnd_fix:
  assumes "float_ulp (of_int M * 2 ^ k) j" "\<bar>M\<bar> \<le> 2 ^ 53"
  shows "float_rnd j (of_int M * 2 ^ k) = of_int M * 2 ^ k"
proof (cases "0 \<le> M")
  case True
  then show ?thesis using assms by (intro float_rnd_fix_nonneg) simp_all
next
  case False
  have "float_ulp (of_int (- M) * 2 ^ k) j" using assms(1) float_ulp_minus[of "of_int M * 2 ^ k" j] by simp
  then have "float_rnd j (of_int (- M) * 2 ^ k) = of_int (- M) * 2 ^ k"
    using False assms(2) by (intro float_rnd_fix_nonneg) simp_all
  then show ?thesis using float_rnd_minus[of j "of_int M * 2 ^ k"] by simp
qed

lemma float_rnd_form:
  assumes "float_ulp y k"
  shows "\<exists>M. \<bar>M\<bar> \<le> 2 ^ 53 \<and> float_rnd k y = of_int M * 2 ^ k"
proof -
  have y: "\<bar>y\<bar> \<le> 2 ^ (53 + k)" using assms by (simp add: float_ulp_def)
  then have "float_rnd k y \<le> 2 ^ (53 + k)" by (intro float_rnd_upper) simp
  moreover have "float_rnd k (- y) \<le> 2 ^ (53 + k)" using y by (intro float_rnd_upper) simp
  ultimately have "\<bar>float_rnd k y\<bar> \<le> 2 ^ (53 + k)" by (simp add: float_rnd_minus abs_le_iff)
  then have "\<bar>real_of_int (round_half_even (y / 2 ^ k))\<bar> * 2 ^ k \<le> 2 ^ 53 * 2 ^ k"
    by (simp add: float_rnd_def power_add abs_mult)
  then have "real_of_int \<bar>round_half_even (y / 2 ^ k)\<bar> \<le> real_of_int (2 ^ 53)" by simp
  then have "\<bar>round_half_even (y / 2 ^ k)\<bar> \<le> 2 ^ 53" by (simp only: of_int_le_iff)
  then show ?thesis unfolding float_rnd_def by blast
qed


lemma float_expo_small: "m < 2 ^ 53 \<Longrightarrow> float_expo m = 0"
  by (simp add: float_expo.simps)

lemma float_expo_bounds:
  "2 ^ 53 \<le> m \<Longrightarrow>
     0 < float_expo m \<and> 2 ^ (52 + float_expo m) \<le> m \<and> m < 2 ^ (53 + float_expo m)"
proof (induction m rule: float_expo.induct)
  case (1 m)
  then have big: "\<not> m < 2 ^ 53" by simp
  then have e: "float_expo m = Suc (float_expo (m div 2))"
    by (subst float_expo.simps) simp
  show ?case
  proof (cases "m div 2 < 2 ^ 53")
    case True
    then have "float_expo (m div 2) = 0" by (rule float_expo_small)
    then have "float_expo m = 1" using e by simp
    moreover have "m < 2 ^ 54" using True by simp
    ultimately show ?thesis using 1(2) by simp
  next
    case False
    then have h: "(2::int) ^ 53 \<le> m div 2" by simp
    define k where "k = float_expo (m div 2)"
    from 1(1)[OF big h] have ih: "2 ^ (52 + k) \<le> m div 2" "m div 2 < 2 ^ (53 + k)"
      by (simp_all add: k_def)
    have p: "(2::int) ^ (52 + Suc k) = 2 * 2 ^ (52 + k)" "(2::int) ^ (53 + Suc k) = 2 * 2 ^ (53 + k)"
      by (simp_all only: add_Suc_right power_Suc)
    have "2 * (m div 2) \<le> m" "m < 2 * (m div 2) + 2" by presburger+
    with ih have a: "2 ^ (52 + Suc k) \<le> m" and b: "m < 2 ^ (53 + Suc k)"
      unfolding p by linarith+
    have "0 < Suc k" by simp
    with a b show ?thesis unfolding e k_def[symmetric] by blast
  qed
qed

lemma float_shift_bounds:
  "0 < a \<Longrightarrow> a < 2 ^ 53 \<Longrightarrow> j \<le> 1074 \<Longrightarrow>
     j \<le> float_shift j a \<and> float_shift j a \<le> 1074
     \<and> a * 2 ^ (float_shift j a - j) < 2 ^ 53
     \<and> (float_shift j a = 1074 \<or> 2 ^ 52 \<le> a * 2 ^ (float_shift j a - j))"
proof (induction j a rule: float_shift.induct)
  case (1 j a)
  show ?case
  proof (cases "2 ^ 52 \<le> a \<or> 1074 \<le> j")
    case True
    then have "float_shift j a = j" by (subst float_shift.simps) simp
    then show ?thesis using True 1(2,3,4) by auto
  next
    case False
    then have g: "\<not> (a \<le> 0 \<or> 2 ^ 52 \<le> a \<or> 1074 \<le> j)" using 1(2) by simp
    then have e: "float_shift j a = float_shift (Suc j) (2 * a)"
      by (subst float_shift.simps) simp
    define j' where "j' = float_shift (Suc j) (2 * a)"
    have "0 < 2 * a" "2 * a < 2 ^ 53" "Suc j \<le> 1074" using False 1(2) by simp_all
    from 1(1)[OF g this] have ih: "Suc j \<le> j'" "j' \<le> 1074"
      "2 * a * 2 ^ (j' - Suc j) < 2 ^ 53"
      "j' = 1074 \<or> 2 ^ 52 \<le> 2 * a * 2 ^ (j' - Suc j)"
      by (simp_all add: j'_def)
    have "j' - j = Suc (j' - Suc j)" using ih(1) by simp
    then have eq: "a * 2 ^ (j' - j) = 2 * a * 2 ^ (j' - Suc j)" by simp
    have "j \<le> j'" using ih(1) by simp
    then show ?thesis unfolding e j'_def[symmetric] eq using ih(2,3,4) by blast
  qed
qed

lemma float_round_rnd_scaled:
  assumes S: "S = (2::real) ^ 1074"
  shows "\<exists>k. float_ulp (x * S) k \<and> float_round x = float_rnd k (x * S) / S"
proof (cases "2 ^ 53 \<le> \<bar>x\<bar>")
  case True
  define m where "m = \<lfloor>\<bar>x\<bar>\<rfloor>"
  define k where "k = float_expo m"
  have "real_of_int (2 ^ 53) \<le> \<bar>x\<bar>" using True by simp
  then have m: "2 ^ 53 \<le> m" unfolding m_def by (simp only: le_floor_iff)
  from float_expo_bounds[OF m] have b: "2 ^ (52 + k) \<le> m" "m < 2 ^ (53 + k)"
    by (simp_all add: k_def)
  have "real_of_int (2 ^ (52 + k)) \<le> of_int m" using b(1) by (simp only: of_int_le_iff)
  also have "\<dots> \<le> \<bar>x\<bar>" unfolding m_def by simp
  finally have lo: "2 ^ (52 + k) \<le> \<bar>x\<bar>" by simp
  have "m + 1 \<le> 2 ^ (53 + k)" using b(2) by simp
  then have "real_of_int (m + 1) \<le> of_int (2 ^ (53 + k))" by (simp only: of_int_le_iff)
  moreover have "\<bar>x\<bar> < of_int (m + 1)" unfolding m_def by linarith
  ultimately have hi: "\<bar>x\<bar> < 2 ^ (53 + k)" by simp
  have Spos: "0 < S" unfolding S by simp
  have pw: "(2::real) ^ (53 + (1074 + k)) = 2 ^ (53 + k) * S"
    "(2::real) ^ (52 + (1074 + k)) = 2 ^ (52 + k) * S"
    "(2::real) ^ (1074 + k) = S * 2 ^ k"
    unfolding S by (simp_all only: power_add mult_ac)
  have ab: "\<bar>x * S\<bar> = \<bar>x\<bar> * S" using Spos by (simp add: abs_mult)
  have "float_ulp (x * S) (1074 + k)"
    unfolding float_ulp_def pw ab using lo hi Spos by simp
  moreover have "float_round x = float_rnd (1074 + k) (x * S) / S"
  proof -
    have "float_round x = of_int (round_half_even (x / 2 ^ k)) * 2 ^ k"
      using True by (simp add: float_round_def Let_def k_def m_def)
    moreover have "x * S / (S * 2 ^ k) = x / 2 ^ k" using Spos by simp
    moreover have "r * (S * 2 ^ k) / S = r * 2 ^ k" for r :: real using Spos by simp
    ultimately show ?thesis unfolding float_rnd_def pw by simp
  qed
  ultimately show ?thesis by blast
next
  case False
  show ?thesis
  proof (cases "x = 0")
    case True
    have "float_shift 0 0 = 0" by (subst float_shift.simps) simp
    then have "float_round x = 0"
      using True by (simp add: float_round_def round_half_even_def)
    moreover have "float_ulp (x * S) 0" using True by (simp add: float_ulp_def)
    moreover have "float_rnd 0 (x * S) = 0" using True by (simp add: float_rnd_def round_half_even_def)
    ultimately show ?thesis by (intro exI[of _ 0]) simp
  next
    case nz: False
    define j where "j = float_shift 0 \<bar>x\<bar>"
    have "0 < \<bar>x\<bar>" "\<bar>x\<bar> < 2 ^ 53" using nz False by simp_all
    from float_shift_bounds[OF this, of 0] have b: "j \<le> 1074" "\<bar>x\<bar> * 2 ^ j < 2 ^ 53"
      "j = 1074 \<or> 2 ^ 52 \<le> \<bar>x\<bar> * 2 ^ j"
      by (simp_all add: j_def)
    define k where "k = 1074 - j"
    have "j + k = 1074" using b(1) by (simp add: k_def)
    then have Sjk: "S = 2 ^ j * 2 ^ k" unfolding S by (simp only: flip: power_add)
    have pw: "(2::real) ^ (53 + k) = 2 ^ 53 * 2 ^ k" "(2::real) ^ (52 + k) = 2 ^ 52 * 2 ^ k"
      by (simp_all only: power_add)
    have ab: "\<bar>x * S\<bar> = \<bar>x\<bar> * 2 ^ j * 2 ^ k" unfolding Sjk by (simp add: abs_mult)
    have hi: "\<bar>x\<bar> * 2 ^ j * 2 ^ k < 2 ^ 53 * 2 ^ k" using b(2) by simp
    have lo: "k = 0 \<or> 2 ^ 52 * 2 ^ k \<le> \<bar>x\<bar> * 2 ^ j * 2 ^ k"
    proof (cases "k = 0")
      case True
      then show ?thesis by simp
    next
      case False
      with b(1) have "j \<noteq> 1074" by (simp add: k_def)
      with b(3) have "2 ^ 52 \<le> \<bar>x\<bar> * 2 ^ j" by simp
      then have "2 ^ 52 * 2 ^ k \<le> \<bar>x\<bar> * 2 ^ j * 2 ^ k" by simp
      then show ?thesis by blast
    qed
    have "float_ulp (x * S) k"
      unfolding float_ulp_def pw ab using hi lo by blast
    moreover have "float_round x = float_rnd k (x * S) / S"
    proof -
      have "float_round x = of_int (round_half_even (x * 2 ^ j)) / 2 ^ j"
        using False by (simp add: float_round_def Let_def j_def)
      moreover have "x * (2 ^ j * 2 ^ k) / 2 ^ k = x * 2 ^ j" by simp
      moreover have "r * 2 ^ k / (2 ^ j * 2 ^ k) = r / 2 ^ j" for r :: real by simp
      ultimately show ?thesis unfolding float_rnd_def Sjk by simp
    qed
    ultimately show ?thesis by blast
  qed
qed

lemma float_round_rnd:
  "\<exists>k. float_ulp (x * 2 ^ 1074) k \<and> float_round x = float_rnd k (x * 2 ^ 1074) / 2 ^ 1074"
  by (rule float_round_rnd_scaled) (rule refl)

lemma float_round_eq:
  assumes "float_ulp (x * 2 ^ 1074) k"
  shows "float_round x = float_rnd k (x * 2 ^ 1074) / 2 ^ 1074"
  using float_round_rnd[of x] float_ulp_unique[OF assms] by metis

lemma float_round_minus: "float_round (- x) = - float_round x"
proof -
  obtain k where k: "float_ulp (x * 2 ^ 1074) k" "float_round x = float_rnd k (x * 2 ^ 1074) / 2 ^ 1074"
    using float_round_rnd by blast
  have "float_ulp (- x * 2 ^ 1074) k" using k(1) float_ulp_minus[of "x * 2 ^ 1074" k] by simp
  from float_round_eq[OF this] show ?thesis using k(2) float_rnd_minus[of k "x * 2 ^ 1074"] by simp
qed

lemma float_round_0: "float_round 0 = 0"
  using float_round_minus[of 0] by simp

lemma float_round_mono_nonneg:
  assumes "0 \<le> x" "x \<le> y"
  shows "float_round x \<le> float_round y"
proof -
  obtain k1 where k1: "float_ulp (x * 2 ^ 1074) k1" "float_round x = float_rnd k1 (x * 2 ^ 1074) / 2 ^ 1074"
    using float_round_rnd by blast
  obtain k2 where k2: "float_ulp (y * 2 ^ 1074) k2" "float_round y = float_rnd k2 (y * 2 ^ 1074) / 2 ^ 1074"
    using float_round_rnd by blast
  have "float_rnd k1 (x * 2 ^ 1074) \<le> float_rnd k2 (y * 2 ^ 1074)"
    using k1(1) k2(1) assms by (intro float_ulp_mono_nonneg) simp_all
  then show ?thesis unfolding k1(2) k2(2) by (simp add: divide_right_mono)
qed

lemma float_round_nonneg: "0 \<le> x \<Longrightarrow> 0 \<le> float_round x"
  using float_round_mono_nonneg[of 0 x] by (simp add: float_round_0)

lemma float_round_mono:
  assumes "x \<le> y"
  shows "float_round x \<le> float_round y"
proof (cases "0 \<le> x")
  case True
  then show ?thesis using assms by (rule float_round_mono_nonneg)
next
  case x: False
  show ?thesis
  proof (cases "0 \<le> y")
    case True
    have "0 \<le> float_round (- x)" using x by (intro float_round_nonneg) simp
    then have "float_round x \<le> 0" by (simp add: float_round_minus)
    also have "0 \<le> float_round y" using True by (rule float_round_nonneg)
    finally show ?thesis .
  next
    case False
    then have "float_round (- y) \<le> float_round (- x)"
      using assms by (intro float_round_mono_nonneg) simp_all
    then show ?thesis by (simp add: float_round_minus)
  qed
qed

lemma float_round_fix:
  assumes "\<bar>M\<bar> \<le> 2 ^ 53"
  shows "float_round (of_int M * 2 ^ k / 2 ^ 1074) = of_int M * 2 ^ k / 2 ^ 1074"
proof -
  obtain j where j: "float_ulp (of_int M * 2 ^ k / 2 ^ 1074 * 2 ^ 1074) j"
    "float_round (of_int M * 2 ^ k / 2 ^ 1074)
       = float_rnd j (of_int M * 2 ^ k / 2 ^ 1074 * 2 ^ 1074) / 2 ^ 1074"
    using float_round_rnd by blast
  have s: "real_of_int M * 2 ^ k / 2 ^ 1074 * 2 ^ 1074 = of_int M * 2 ^ k" by simp
  from j(1) have "float_ulp (of_int M * 2 ^ k) j" unfolding s .
  from float_rnd_fix[OF this assms] show ?thesis unfolding j(2) s by simp
qed

lemma float_round_idem: "float_round (float_round x) = float_round x"
proof -
  obtain k where k: "float_ulp (x * 2 ^ 1074) k" "float_round x = float_rnd k (x * 2 ^ 1074) / 2 ^ 1074"
    using float_round_rnd by blast
  from float_rnd_form[OF k(1)] obtain M where M: "\<bar>M\<bar> \<le> 2 ^ 53" "float_rnd k (x * 2 ^ 1074) = of_int M * 2 ^ k"
    by blast
  show ?thesis unfolding k(2) M(2) using M(1) by (rule float_round_fix)
qed


lemma float_round_dyadic:
  assumes "\<bar>m\<bar> \<le> 2 ^ 53" "j \<le> 1074"
  shows "float_round (of_int m / 2 ^ j) = of_int m / 2 ^ j"
proof -
  define S :: real where "S = 2 ^ 1074"
  have "1074 - j + j = 1074" using assms(2) by simp
  then have "S = 2 ^ (1074 - j) * 2 ^ j" unfolding S_def by (simp only: flip: power_add)
  then have "real_of_int m * 2 ^ (1074 - j) / S = of_int m / 2 ^ j" by simp
  then show ?thesis using float_round_fix[OF assms(1), of "1074 - j"] unfolding S_def by simp
qed



text \<open>Evaluation with the last place given.\<close>

lemma float_round_lo:
  assumes "j \<le> 1074" "\<bar>x\<bar> * 2 ^ j < 2 ^ 53" "j = 1074 \<or> 2 ^ 52 \<le> \<bar>x\<bar> * 2 ^ j"
  shows "float_round x = of_int (round_half_even (x * 2 ^ j)) / 2 ^ j"
proof -
  define S :: real where "S = 2 ^ 1074"
  define k where "k = 1074 - j"
  have "j + k = 1074" using assms(1) by (simp add: k_def)
  then have Sjk: "S = 2 ^ j * 2 ^ k" unfolding S_def by (simp only: flip: power_add)
  have pw: "(2::real) ^ (53 + k) = 2 ^ 53 * 2 ^ k" "(2::real) ^ (52 + k) = 2 ^ 52 * 2 ^ k"
    by (simp_all only: power_add)
  have ab: "\<bar>x * S\<bar> = \<bar>x\<bar> * 2 ^ j * 2 ^ k" unfolding Sjk by (simp add: abs_mult)
  have hi: "\<bar>x\<bar> * 2 ^ j * 2 ^ k < 2 ^ 53 * 2 ^ k" using assms(2) by simp
  have lo: "k = 0 \<or> 2 ^ 52 * 2 ^ k \<le> \<bar>x\<bar> * 2 ^ j * 2 ^ k"
  proof (cases "k = 0")
    case True
    then show ?thesis by simp
  next
    case False
    with assms(1) have "j \<noteq> 1074" by (simp add: k_def)
    with assms(3) have "2 ^ 52 \<le> \<bar>x\<bar> * 2 ^ j" by simp
    then have "2 ^ 52 * 2 ^ k \<le> \<bar>x\<bar> * 2 ^ j * 2 ^ k" by simp
    then show ?thesis by blast
  qed
  have "float_ulp (x * S) k"
    unfolding float_ulp_def pw ab using hi lo by blast
  then have "float_round x = float_rnd k (x * S) / S"
    unfolding S_def by (rule float_round_eq)
  moreover have "x * (2 ^ j * 2 ^ k) / 2 ^ k = x * 2 ^ j" by simp
  moreover have "r * 2 ^ k / (2 ^ j * 2 ^ k) = r / 2 ^ j" for r :: real by simp
  ultimately show ?thesis unfolding float_rnd_def Sjk by simp
qed

lemma float_round_hi:
  assumes "\<bar>x\<bar> / 2 ^ k < 2 ^ 53" "2 ^ 52 \<le> \<bar>x\<bar> / 2 ^ k"
  shows "float_round x = of_int (round_half_even (x / 2 ^ k)) * 2 ^ k"
proof -
  define S :: real where "S = 2 ^ 1074"
  have Spos: "0 < S" unfolding S_def by simp
  have pw: "(2::real) ^ (53 + (1074 + k)) = 2 ^ 53 * 2 ^ k * S"
    "(2::real) ^ (52 + (1074 + k)) = 2 ^ 52 * 2 ^ k * S"
    "(2::real) ^ (1074 + k) = S * 2 ^ k"
    unfolding S_def by (simp_all only: power_add mult_ac)
  have ab: "\<bar>x * S\<bar> = \<bar>x\<bar> * S" using Spos by (simp add: abs_mult)
  have "\<bar>x\<bar> < 2 ^ 53 * 2 ^ k" "2 ^ 52 * 2 ^ k \<le> \<bar>x\<bar>"
    using assms by (simp_all add: field_simps)
  then have "float_ulp (x * S) (1074 + k)"
    unfolding float_ulp_def pw ab using Spos by simp
  then have "float_round x = float_rnd (1074 + k) (x * S) / S"
    unfolding S_def by (rule float_round_eq)
  moreover have "x * S / (S * 2 ^ k) = x / 2 ^ k" using Spos by simp
  moreover have "r * (S * 2 ^ k) / S = r * 2 ^ k" for r :: real using Spos by simp
  ultimately show ?thesis unfolding float_rnd_def pw by simp
qed


section \<open>Properties of the range and the window planner\<close>

lemma n_windows_zero:
  assumes "0 < step" and "\<not> start < stop"
  shows "n_windows start stop step = 0"
proof -
  have "stop - start + step - 1 < step" using assms by simp
  then have "(stop - start + step - 1) div step \<le> 0"
    using assms(1) by (simp add: leI pos_imp_zdiv_pos_iff)
  then show ?thesis by (simp add: n_windows_def)
qed

lemma n_windows_step:
  assumes "0 < step" and "start < stop"
  shows "n_windows start stop step = Suc (n_windows (start + step) stop step)"
proof -
  have "stop - start + step - 1 = (stop - (start + step) + step - 1) + step" by simp
  then have "(stop - start + step - 1) div step = (stop - (start + step) + step - 1) div step + 1"
    using assms(1) by (metis div_add_self2 less_irrefl)
  moreover have "0 \<le> (stop - (start + step) + step - 1) div step"
    using assms by (simp add: pos_imp_zdiv_nonneg_iff)
  ultimately show ?thesis by (simp add: n_windows_def nat_add_distrib)
qed

lemma range_up_closed:
  "0 < step \<Longrightarrow>
   range_up start stop step = map (\<lambda>k. start + int k * step) [0..<n_windows start stop step]"
proof (induction start stop step rule: range_up.induct)
  case (1 start stop step)
  show ?case
  proof (cases "start < stop")
    case False
    with 1(2) show ?thesis
      by (simp add: range_up.simps[of start stop step] n_windows_zero)
  next
    case True
    have "range_up start stop step = start # range_up (start + step) stop step"
      using True 1(2) by (simp add: range_up.simps[of start stop step])
    also have "\<dots> = start #
        map (\<lambda>k. (start + step) + int k * step) [0..<n_windows (start + step) stop step]"
      using 1 True by simp
    also have "\<dots> =
        map (\<lambda>k. start + int k * step) [0..<Suc (n_windows (start + step) stop step)]"
      by (simp add: upt_conv_Cons map_Suc_upt[symmetric] algebra_simps del: upt_Suc)
    finally show ?thesis using n_windows_step[OF 1(2) True] by simp
  qed
qed

lemma int_le_div_iff:
  assumes "0 < (step::int)"
  shows "a \<le> b div step \<longleftrightarrow> a * step \<le> b"
proof -
  have "a \<le> b div step \<longleftrightarrow> a \<le> \<lfloor>(of_int b :: rat) / of_int step\<rfloor>"
    by (simp add: floor_divide_of_int_eq)
  also have "\<dots> \<longleftrightarrow> (of_int a :: rat) \<le> of_int b / of_int step"
    by (rule le_floor_iff)
  also have "\<dots> \<longleftrightarrow> (of_int a :: rat) * of_int step \<le> of_int b"
    using assms by (simp add: pos_le_divide_eq)
  also have "\<dots> \<longleftrightarrow> a * step \<le> b"
    by (metis of_int_le_iff of_int_mult)
  finally show ?thesis .
qed

lemma n_windows_less_iff:
  assumes "0 < step"
  shows "k < n_windows start stop step \<longleftrightarrow> start + int k * step < stop"
proof -
  have "int k < (stop - start + step - 1) div step
      \<longleftrightarrow> int k + 1 \<le> (stop - start + step - 1) div step"
    by linarith
  also have "\<dots> \<longleftrightarrow> (int k + 1) * step \<le> stop - start + step - 1"
    by (rule int_le_div_iff[OF assms])
  also have "\<dots> \<longleftrightarrow> start + int k * step < stop"
    by (auto simp: algebra_simps)
  finally show ?thesis by (auto simp: n_windows_def)
qed

lemma enumerate_map_upt:
  "enumerate 0 (map f [0..<n]) = map (\<lambda>k. (k, f k)) [0..<n]"
  by (rule nth_equalityI) (simp_all add: nth_enumerate_eq)

lemma sequence_err_map_Inr:
  "(\<And>x. x \<in> set xs \<Longrightarrow> f x = Inr (g x)) \<Longrightarrow> sequence_err (map f xs) = Inr (map g xs)"
  by (induction xs) simp_all

lemma evol_windows_closed:
  assumes "0 < step_iter"
    and "\<And>k. k < n_windows start_iter stop_iter step_iter \<Longrightarrow>
           block_window mode wfrac start_iter stop_iter step_iter
             (start_iter + int k * step_iter) = Inr (w k)"
  shows "evol_windows mode wfrac start_iter stop_iter step_iter =
     Inr (map (\<lambda>k. (k, w k)) [0..<n_windows start_iter stop_iter step_iter])"
proof -
  let ?n = "n_windows start_iter stop_iter step_iter"
  have "evol_windows mode wfrac start_iter stop_iter step_iter =
      sequence_err
        (map (\<lambda>k. case block_window mode wfrac start_iter stop_iter step_iter
                          (start_iter + int k * step_iter) of
                     Inl e \<Rightarrow> Inl e
                   | Inr window \<Rightarrow> Inr (k, window))
             [0..<?n])"
    using assms(1)
    by (simp add: evol_windows_def py_range_def range_up_closed enumerate_map_upt o_def)
  also have "\<dots> = Inr (map (\<lambda>k. (k, w k)) [0..<?n])"
    by (rule sequence_err_map_Inr) (simp add: assms(2))
  finally show ?thesis .
qed

lemma block_window_blocked:
  "block_window Blocked wfrac start_iter stop_iter step_iter start
     = Inr (start, min (start + step_iter) stop_iter)"
  by (simp add: block_window_def)



lemma float_result_cases:
  "float_result x = Inr r \<Longrightarrow> r = float_round x"
  by (simp add: float_result_def Let_def split: if_splits)



lemma float_round_exact:
  assumes "j \<le> 1074" "of_int \<lfloor>x * 2 ^ j\<rfloor> = x * 2 ^ j" "\<bar>x * 2 ^ j\<bar> \<le> 2 ^ 53"
  shows "float_round x = x"
proof -
  define m where "m = \<lfloor>x * 2 ^ j\<rfloor>"
  have xm: "x * 2 ^ j = of_int m" unfolding m_def using assms(2) by (rule sym)
  then have x: "x = of_int m / 2 ^ j" by (simp add: field_simps)
  have "\<bar>real_of_int m\<bar> \<le> real_of_int (2 ^ 53)" using assms(3) unfolding xm by simp
  then have "real_of_int \<bar>m\<bar> \<le> real_of_int (2 ^ 53)" by simp
  then have "\<bar>m\<bar> \<le> 2 ^ 53" by (simp only: of_int_le_iff)
  from float_round_dyadic[OF this assms(1)] show ?thesis unfolding x .
qed

text \<open>
  Claim C5. For \<open>start_iter < stop_iter\<close> and \<open>step_iter > 0\<close>, blocked mode dispatches
  exactly the windows \<open>[start_iter + k*step_iter, min(start_iter + (k+1)*step_iter, stop_iter))\<close>
  for \<open>k = 0, 1, ...\<close> as long as \<open>start_iter + k*step_iter < stop_iter\<close> (there is at least
  one), each with \<open>stop > start\<close>; for \<open>start=0, stop=100, step=25\<close> these are
  \<open>[0,25), [25,50), [50,75), [75,100)\<close>.
\<close>

theorem blocked_windows_schedule:
  "(start_iter < stop_iter \<and> 0 < step_iter \<longrightarrow>
      evol_windows Blocked window_frac start_iter stop_iter step_iter =
        Inr (map (\<lambda>k. (k, start_iter + int k * step_iter,
                            min (start_iter + (int k + 1) * step_iter) stop_iter))
                 [0..<n_windows start_iter stop_iter step_iter])
      \<and> 0 < n_windows start_iter stop_iter step_iter
      \<and> (\<forall>k. k < n_windows start_iter stop_iter step_iter
                \<longleftrightarrow> start_iter + int k * step_iter < stop_iter)
      \<and> (\<forall>k < n_windows start_iter stop_iter step_iter.
             start_iter + int k * step_iter
               < min (start_iter + (int k + 1) * step_iter) stop_iter))
   \<and> evol_windows Blocked window_frac 0 100 25 =
        Inr [(0, 0, 25), (1, 25, 50), (2, 50, 75), (3, 75, 100)]"
proof -
  have general: "evol_windows Blocked window_frac start_iter stop_iter step_iter =
        Inr (map (\<lambda>k. (k, start_iter + int k * step_iter,
                            min (start_iter + (int k + 1) * step_iter) stop_iter))
                 [0..<n_windows start_iter stop_iter step_iter])"
    if "0 < step_iter" for start_iter stop_iter step_iter
    using that
    by (intro evol_windows_closed) (simp_all add: block_window_blocked algebra_simps)
  have nonempty: "0 < n_windows start_iter stop_iter step_iter"
    if "start_iter < stop_iter" "0 < step_iter"
    using that n_windows_less_iff[of step_iter 0 start_iter stop_iter] by simp
  have positive: "start_iter + int k * step_iter
               < min (start_iter + (int k + 1) * step_iter) stop_iter"
    if "0 < step_iter" "k < n_windows start_iter stop_iter step_iter" for k
    using that by (simp add: n_windows_less_iff algebra_simps)
  have example: "evol_windows Blocked window_frac 0 100 25 =
        Inr [(0, 0, 25), (1, 25, 50), (2, 50, 75), (3, 75, 100)]"
    using general[of 25 0 100] by (simp add: n_windows_def upt_rec)
  show ?thesis
    using general[of step_iter start_iter stop_iter] nonempty positive example
      n_windows_less_iff[of step_iter _ start_iter stop_iter]
    by blast
qed

theorem blocked_windows_schedule_witness:
  "(1::int) < 11 \<and> (0::int) < 3 \<and>
   evol_windows Blocked 1 1 11 3 = Inr [(0, 1, 4), (1, 4, 7), (2, 7, 10), (3, 10, 11)]
   \<and> n_windows 1 11 3 = 4"
  using blocked_windows_schedule[of 1 11 3 1]
  by (simp add: n_windows_def upt_rec)




section \<open>Properties of \<open>BasisState.states_from_file\<close>\<close>

lemma BasisState_init_data_ref:
  "BasisState_init [(''state_id'', a), (''probability'', b), (''label'', c), (''data_ref'', d)]
     = Inl TypeError"
  by (simp add: BasisState_init_def BasisState_params_def)

lemma state_of_fields_fails: "\<exists>e. state_of_fields py_float flds = Inl e"
  by (auto simp: state_of_fields_def BasisState_init_data_ref Let_def
           split: list.splits option.splits)

lemma state_of_fields_TypeError:
  "flds = lbl # f1 # fs2 \<Longrightarrow> py_float f1 \<noteq> None \<Longrightarrow>
   state_of_fields py_float flds = Inl TypeError"
  by (auto simp: state_of_fields_def BasisState_init_data_ref Let_def
           split: list.splits option.splits)

lemma states_from_lines_skip:
  "list_all (\<lambda>raw. \<not> is_data_line raw) pre \<Longrightarrow>
   states_from_lines py_float (pre @ rest) states = states_from_lines py_float rest states"
  by (induction pre) (simp_all add: is_data_line_def)

lemma states_from_lines_first_data_line:
  assumes "is_data_line raw"
  shows "states_from_lines py_float (raw # rest) states
           = (case state_of_fields py_float (py_split (data_part raw)) of
                Inl e \<Rightarrow> Inl e | Inr st \<Rightarrow> states_from_lines py_float rest (states @ [st]))"
  using assms by (simp add: is_data_line_def)

lemma states_from_lines_result:
  "states_from_lines py_float file_lines states =
     (case dropWhile (\<lambda>raw. \<not> is_data_line raw) file_lines of
        [] \<Rightarrow> Inr states
      | raw # _ \<Rightarrow> (case state_of_fields py_float (py_split (data_part raw)) of
                     Inl e \<Rightarrow> Inl e | Inr st \<Rightarrow> Inl TypeError))"
proof (induction file_lines)
  case Nil
  show ?case by simp
next
  case (Cons raw rest)
  show ?case
  proof (cases "is_data_line raw")
    case True
    obtain e where "state_of_fields py_float (py_split (data_part raw)) = Inl e"
      using state_of_fields_fails by blast
    with True show ?thesis by (simp add: is_data_line_def)
  next
    case False
    with Cons show ?thesis by (simp add: is_data_line_def)
  qed
qed


text \<open>
  Claim C10. For every file with at least one data line (non-empty once the comment is
  removed and the rest stripped) whose second field parses as a float,
  \<open>BasisState.states_from_file\<close> raises instead of returning: the constructor is called
  with the keyword \<open>data_ref\<close>, which \<open>__init__\<close> does not accept (\<open>TypeError\<close> when that line
  is the first data line). It returns only for a file without data lines, and then the
  empty list.
\<close>

theorem states_from_file_raises:
  "((\<exists>raw \<in> set file_lines. is_data_line raw \<and> second_field_parses py_float raw)
      \<longrightarrow> (\<exists>e. states_from_file py_float file_lines = Inl e))
   \<and> (states_from_file py_float file_lines = Inr ss
      \<longleftrightarrow> ss = [] \<and> (\<forall>raw \<in> set file_lines. \<not> is_data_line raw))
   \<and> (\<forall>pre raw post. file_lines = pre @ raw # post
         \<and> (\<forall>r \<in> set pre. \<not> is_data_line r)
         \<and> is_data_line raw \<and> second_field_parses py_float raw
      \<longrightarrow> states_from_file py_float file_lines = Inl TypeError)"
proof -
  let ?rest = "dropWhile (\<lambda>raw. \<not> is_data_line raw) file_lines"
  have res: "states_from_file py_float file_lines =
     (case ?rest of
        [] \<Rightarrow> Inr []
      | raw # _ \<Rightarrow> (case state_of_fields py_float (py_split (data_part raw)) of
                     Inl e \<Rightarrow> Inl e | Inr st \<Rightarrow> Inl TypeError))"
    unfolding states_from_file_def by (rule states_from_lines_result)
  have none: "?rest = [] \<longleftrightarrow> (\<forall>raw \<in> set file_lines. \<not> is_data_line raw)"
    by (simp add: dropWhile_eq_Nil_conv)
  have returns: "states_from_file py_float file_lines = Inr s
      \<longleftrightarrow> s = [] \<and> (\<forall>raw \<in> set file_lines. \<not> is_data_line raw)" for s
  proof (cases ?rest)
    case Nil
    with res none show ?thesis by auto
  next
    case (Cons raw tl)
    obtain e where "state_of_fields py_float (py_split (data_part raw)) = Inl e"
      using state_of_fields_fails by blast
    with res Cons have "states_from_file py_float file_lines = Inl e" by simp
    moreover have "\<not> (\<forall>raw \<in> set file_lines. \<not> is_data_line raw)"
      using none Cons by simp
    ultimately show ?thesis by simp
  qed
  have raises: "\<exists>e. states_from_file py_float file_lines = Inl e"
    if "\<exists>raw \<in> set file_lines. is_data_line raw \<and> second_field_parses py_float raw"
  proof (cases "states_from_file py_float file_lines")
    case (Inl e)
    then show ?thesis by blast
  next
    case (Inr s)
    with returns[of s] that show ?thesis by blast
  qed
  have first: "states_from_file py_float file_lines = Inl TypeError"
    if h: "file_lines = pre @ raw # post" "\<forall>r \<in> set pre. \<not> is_data_line r"
       "is_data_line raw" "second_field_parses py_float raw" for pre raw post
  proof -
    have "?rest = raw # post"
      using h(1,2,3) by (simp add: dropWhile_append3)
    moreover obtain lbl f1 fs2 where
      "py_split (data_part raw) = lbl # f1 # fs2" "py_float f1 \<noteq> None"
      using h(4) by (auto simp: second_field_parses_def split: list.splits)
    ultimately show ?thesis
      using res state_of_fields_TypeError[of _ lbl f1 fs2 py_float] by simp
  qed
  show ?thesis
  proof (intro conjI allI impI)
    show "\<exists>e. states_from_file py_float file_lines = Inl e"
      if "\<exists>raw \<in> set file_lines. is_data_line raw \<and> second_field_parses py_float raw"
      using that by (rule raises)
    show "states_from_file py_float file_lines = Inr ss
      \<longleftrightarrow> ss = [] \<and> (\<forall>raw \<in> set file_lines. \<not> is_data_line raw)"
      by (rule returns)
    show "states_from_file py_float file_lines = Inl TypeError"
      if "file_lines = pre @ raw # post \<and> (\<forall>r \<in> set pre. \<not> is_data_line r)
         \<and> is_data_line raw \<and> second_field_parses py_float raw" for pre raw post
      using that first by blast
  qed
qed

theorem states_from_file_raises_witness:
  "is_data_line ''unbound    1.0''
   \<and> second_field_parses (\<lambda>s. if s = ''1.0'' then Some 1 else None) ''unbound    1.0''
   \<and> states_from_file (\<lambda>s. if s = ''1.0'' then Some 1 else None)
        [''# basis states'', ''unbound    1.0''] = Inl TypeError
   \<and> states_from_file (\<lambda>s. if s = ''1.0'' then Some 1 else None)
        [''# basis states'', ''   ''] = Inr []"
proof -
  let ?pf = "\<lambda>s. if s = ''1.0'' then Some (1::real) else None"
  have a: "is_data_line ''unbound    1.0''" by code_simp
  have b: "second_field_parses ?pf ''unbound    1.0''" by code_simp
  have c: "\<forall>r \<in> set [''# basis states'']. \<not> is_data_line r" by code_simp
  have d: "\<forall>r \<in> set [''# basis states'', ''   '']. \<not> is_data_line r" by code_simp
  have "states_from_file ?pf [''# basis states'', ''unbound    1.0''] = Inl TypeError"
    using states_from_file_raises[of "[''# basis states'', ''unbound    1.0'']" ?pf "[]"]
      a b c by (metis append_Cons append_Nil)
  moreover have "states_from_file ?pf [''# basis states'', ''   ''] = Inr []"
    using states_from_file_raises[of "[''# basis states'', ''   '']" ?pf "[]"] d by blast
  ultimately show ?thesis using a b by blast
qed

section \<open>Properties of the block bootstrap\<close>

lemma sequence_err_length:
  "sequence_err rs = Inr xs \<Longrightarrow> length xs = length rs"
  by (induction rs arbitrary: xs) (auto split: sum.splits)

lemma synth_rates_length:
  "synth_rates rate_of randint starts stops n = Inr synth \<Longrightarrow> length synth = nat n"
  by (auto simp: synth_rates_def dest: sequence_err_length)

lemma np_get_Inr:
  "0 \<le> i \<Longrightarrow> np_get xs i = Inr v \<longleftrightarrow> i < int (length xs) \<and> v = xs ! nat i"
  by (auto simp: np_get_def)

lemma np_get_Inl:
  "0 \<le> i \<Longrightarrow> np_get xs i = Inl e \<longleftrightarrow> \<not> i < int (length xs) \<and> e = IndexError"
  by (auto simp: np_get_def)

lemma float_round_half: "float_round (1 / 2) = 1 / 2"
  using float_round_dyadic[of 1 1] by simp

lemma lbi_Inr:
  assumes "lbi n a = Inr lower"
  shows "lower = \<lfloor>float_round (float_round (a * float_round (of_int n)) / 2)\<rfloor>"
  using assms
  by (auto simp: lbi_def float_mul_int_def float_of_int_def float_mul_def float_half_def
        split: sum.splits dest!: float_result_cases)

lemma ubi_Inr:
  assumes "ubi n a = Inr upper"
  shows "upper = \<lceil>float_round (float_round (1 - float_round (a / 2)) * float_round (of_int n))\<rceil>"
  using assms
  by (auto simp: ubi_def float_mul_int_def float_of_int_def float_mul_def float_half_def
        float_sub_def split: sum.splits dest!: float_result_cases)

lemma lbi_le_ubi:
  assumes "0 \<le> a" "a \<le> 1" "0 \<le> n" "lbi n a = Inr lower" "ubi n a = Inr upper"
  shows "0 \<le> lower" "lower \<le> upper"
proof -
  define nf where "nf = float_round (of_int n)"
  define p where "p = float_round (a * nf)"
  define q where "q = float_round (p / 2)"
  define h where "h = float_round (a / 2)"
  define c where "c = float_round (1 - h)"
  define P where "P = float_round (c * nf)"
  have lower: "lower = \<lfloor>q\<rfloor>"
    using lbi_Inr[OF assms(4)] by (simp add: q_def p_def nf_def)
  have upper: "upper = \<lceil>P\<rceil>"
    using ubi_Inr[OF assms(5)] by (simp add: P_def c_def h_def nf_def)
  have nf0: "0 \<le> nf" unfolding nf_def using assms(3) by (intro float_round_nonneg) simp
  have "0 \<le> a * nf" using assms(1) nf0 by simp
  then have p0: "0 \<le> p" unfolding p_def by (rule float_round_nonneg)
  have "a * nf \<le> nf" using mult_right_mono[OF assms(2) nf0] by simp
  then have "p \<le> float_round nf" unfolding p_def by (rule float_round_mono)
  then have pn: "p \<le> nf" by (simp add: nf_def float_round_idem)
  have q0: "0 \<le> q" unfolding q_def using p0 by (intro float_round_nonneg) simp
  have qn: "q \<le> float_round (nf / 2)"
    unfolding q_def using pn by (intro float_round_mono) simp
  have "h \<le> float_round (1 / 2)"
    unfolding h_def using assms(2) by (intro float_round_mono) simp
  then have "h \<le> 1 / 2" by (simp add: float_round_half)
  then have "float_round (1 / 2) \<le> c"
    unfolding c_def by (intro float_round_mono) simp
  then have "1 / 2 \<le> c" by (simp add: float_round_half)
  then have "nf / 2 \<le> c * nf" using nf0 mult_right_mono[of "1 / 2" c nf] by simp
  then have "float_round (nf / 2) \<le> P" unfolding P_def by (rule float_round_mono)
  with qn have qP: "q \<le> P" by simp
  show "0 \<le> lower" unfolding lower using q0 by simp
  have "real_of_int \<lfloor>q\<rfloor> \<le> q" by simp
  also have "q \<le> P" by (rule qP)
  also have "P \<le> of_int \<lceil>P\<rceil>" by simp
  finally show "lower \<le> upper" unfolding lower upper by simp
qed

lemma calc_ci_block_Inr:
  assumes "calc_ci_block rate_of ctime randint ns lab i j start_iter stop_iter a n = Inr res"
  shows "\<exists>starts stops synth lower upper lb ub.
    bootstrap_blocks start_iter stop_iter (int ctime + 1) = Inr (starts, stops) \<and>
    synth_rates rate_of randint starts stops n = Inr synth \<and>
    lbi n a = Inr lower \<and> ubi n a = Inr upper \<and>
    np_get (sort synth) lower = Inr lb \<and>
    np_get (sort synth) upper = Inr ub \<and>
    res = (lab, i, j, (start_iter, stop_iter, rate_of (range_up start_iter stop_iter 1), lb, ub, ctime)) \<and>
    0 \<le> n \<and> int i < stop_iter - start_iter \<and> j < ns"
proof -
  from assms have g: "\<not> stop_iter - start_iter < 0" "int i < stop_iter - start_iter" "j < ns"
    unfolding calc_ci_block_def Let_def by (simp_all split: if_splits)
  show ?thesis
  proof (cases "lbi n a")
    case (Inl e)
    with assms g show ?thesis by (simp add: calc_ci_block_def Let_def)
  next
    case lo: (Inr lower)
    show ?thesis
    proof (cases "ubi n a")
      case (Inl e)
      with assms g lo show ?thesis by (simp add: calc_ci_block_def Let_def)
    next
      case hi: (Inr upper)
      from assms g lo hi have n: "\<not> n < 0"
        unfolding calc_ci_block_def Let_def by (simp split: if_splits)
      show ?thesis
      proof (cases "bootstrap_blocks start_iter stop_iter (int ctime + 1)")
        case (Inl e)
        with assms g lo hi n show ?thesis by (simp add: calc_ci_block_def Let_def)
      next
        case b: (Inr blocks)
        obtain starts stops where blocks: "blocks = (starts, stops)" by (cases blocks)
        show ?thesis
        proof (cases "synth_rates rate_of randint starts stops n")
          case (Inl e)
          with assms g lo hi n b blocks show ?thesis by (simp add: calc_ci_block_def Let_def)
        next
          case s: (Inr synth)
          show ?thesis
          proof (cases "np_get (sort synth) lower")
            case (Inl e)
            with assms g lo hi n b blocks s show ?thesis by (simp add: calc_ci_block_def Let_def)
          next
            case l: (Inr lb)
            show ?thesis
            proof (cases "np_get (sort synth) upper")
              case (Inl e)
              with assms g lo hi n b blocks s l show ?thesis
                by (simp add: calc_ci_block_def Let_def)
            next
              case u: (Inr ub)
              with assms g lo hi n b blocks s l show ?thesis
                by (simp add: calc_ci_block_def Let_def)
            qed
          qed
        qed
      qed
    qed
  qed
qed

lemma calc_ci_block_positions:
  assumes "0 \<le> a" "a \<le> 1"
    and "calc_ci_block rate_of ctime randint ns lab i j start_iter stop_iter a n = Inr res"
  shows "\<exists>starts stops synth lower upper.
    bootstrap_blocks start_iter stop_iter (int ctime + 1) = Inr (starts, stops) \<and>
    synth_rates rate_of randint starts stops n = Inr synth \<and>
    int (length synth) = n \<and>
    lbi n a = Inr (int lower) \<and> ubi n a = Inr (int upper) \<and>
    res = (lab, i, j, (start_iter, stop_iter, rate_of (range_up start_iter stop_iter 1),
             sort synth ! lower, sort synth ! upper, ctime)) \<and>
    lower \<le> upper \<and> upper < length synth"
proof -
  from calc_ci_block_Inr[OF assms(3)] obtain starts stops synth lo hi lb ub where
    b: "bootstrap_blocks start_iter stop_iter (int ctime + 1) = Inr (starts, stops)" and
    s: "synth_rates rate_of randint starts stops n = Inr synth" and
    lo: "lbi n a = Inr lo" and hi: "ubi n a = Inr hi" and
    l: "np_get (sort synth) lo = Inr lb" and
    u: "np_get (sort synth) hi = Inr ub" and
    res: "res = (lab, i, j,
            (start_iter, stop_iter, rate_of (range_up start_iter stop_iter 1), lb, ub, ctime))" and
    n: "0 \<le> n"
    by blast
  have len: "int (length synth) = n"
    using synth_rates_length[OF s] n by simp
  note pos = lbi_le_ubi[OF assms(1,2) n lo hi]
  then have hi0: "0 \<le> hi" by simp
  have lb: "lb = sort synth ! nat lo"
    using l pos(1) by (simp add: np_get_Inr)
  have ub: "hi < int (length synth)" "ub = sort synth ! nat hi"
    using u hi0 by (simp_all add: np_get_Inr)
  have "nat hi < length synth" using ub(1) hi0 by linarith
  moreover have "nat lo \<le> nat hi" using pos(2) by simp
  moreover have "lbi n a = Inr (int (nat lo))" "ubi n a = Inr (int (nat hi))"
    using lo hi pos(1) hi0 by simp_all
  ultimately show ?thesis
    using b s len res lb ub(2)
    by (intro exI[of _ starts] exI[of _ stops] exI[of _ synth] exI[of _ "nat lo"]
          exI[of _ "nat hi"]) simp
qed

text \<open>
  The positions are those of floating-point arithmetic, not of the exact quotients: for
  \<open>alpha = 0.9\<close> and 100 resamples the upper position is 56, one more than the ceiling of
  the exact value of \<open>100 * (1 - alpha/2)\<close>.
\<close>

lemma positions_rounded_example:
  "lbi 100 (float_round (9 / 10)) = Inr 45
   \<and> ubi 100 (float_round (9 / 10)) = Inr 56
   \<and> \<lceil>100 * (1 - float_round (9 / 10) / 2)\<rceil> = 55"
proof -
  note ev = float_round_lo[where j = 54] float_round_lo[where j = 53]
    float_round_lo[where j = 47] float_round_lo[where j = 46] round_half_even_def
  have l: "lbi 100 (float_round (9 / 10)) = Inr 45"
    by (simp add: lbi_def float_mul_int_def float_of_int_def float_mul_def float_half_def
          float_result_def float_max_def ev)
  have u: "ubi 100 (float_round (9 / 10)) = Inr 56"
    by (simp add: ubi_def float_mul_int_def float_of_int_def float_mul_def float_half_def
          float_sub_def float_result_def float_max_def ev)
  have e: "\<lceil>100 * (1 - float_round (9 / 10) / 2)\<rceil> = 55"
    by (simp add: ev)
  show ?thesis using l u e by blast
qed



text \<open>
  Claim C3, amended. For \<open>alpha\<close> in \<open>(0,1)\<close> and \<open>n_sets > 0\<close>: a user-supplied \<open>n_sets\<close> is
  used as given (it is never widened; only an absent or zero \<open>n_sets\<close> is replaced by the
  default). Nothing keeps the positions in range: whenever the upper position computed
  from that \<open>n_sets\<close> is \<open>n_sets\<close> or more, \<open>_calc_ci_block\<close> raises instead of returning.
  Whenever it returns, both positions were indices into the \<open>n_sets\<close> sorted values.
\<close>

theorem nsets_not_widened:
  "0 < alpha \<and> alpha < 1 \<and> 0 < n \<longrightarrow>
     mcbs_nsets (process_args_mcbs bssize alpha acalpha (Some n)) = n
   \<and> mcbs_nsets (process_args_mcbs bssize alpha acalpha None) = bssize
   \<and> (ubi n alpha = Inr upper \<and> n \<le> upper \<longrightarrow>
        (\<exists>e. calc_ci_block rate_of ctime randint ns lab i j start_iter stop_iter alpha n = Inl e))
   \<and> (calc_ci_block rate_of ctime randint ns lab i j start_iter stop_iter alpha n = Inr res \<longrightarrow>
        (\<exists>lower upper. lbi n alpha = Inr lower \<and> ubi n alpha = Inr upper
           \<and> 0 \<le> lower \<and> lower \<le> upper \<and> upper < n))"
proof (intro impI, elim conjE)
  assume a: "0 < alpha" "alpha < 1" and n: "0 < n"
  from a have a': "0 \<le> alpha" "alpha \<le> 1" by simp_all
  have returns: "\<exists>lower upper. lbi n alpha = Inr lower \<and> ubi n alpha = Inr upper
           \<and> 0 \<le> lower \<and> lower \<le> upper \<and> upper < n"
    if r: "calc_ci_block rate_of ctime randint ns lab i j start_iter stop_iter alpha n = Inr res"
    for res
  proof -
    from calc_ci_block_positions[OF a' r] obtain starts stops synth lower upper where
      "bootstrap_blocks start_iter stop_iter (int ctime + 1) = Inr (starts, stops)
       \<and> synth_rates rate_of randint starts stops n = Inr synth
       \<and> int (length synth) = n
       \<and> lbi n alpha = Inr (int lower) \<and> ubi n alpha = Inr (int upper)
       \<and> res = (lab, i, j, (start_iter, stop_iter, rate_of (range_up start_iter stop_iter 1),
             sort synth ! lower, sort synth ! upper, ctime))
       \<and> lower \<le> upper \<and> upper < length synth"
      by blast
    then have "lbi n alpha = Inr (int lower)" "ubi n alpha = Inr (int upper)"
      "0 \<le> int lower" "int lower \<le> int upper" "int upper < n"
      by auto
    then show ?thesis by blast
  qed
  have raises: "\<exists>e. calc_ci_block rate_of ctime randint ns lab i j start_iter stop_iter alpha n = Inl e"
    if h: "ubi n alpha = Inr upper" "n \<le> upper"
  proof (cases "calc_ci_block rate_of ctime randint ns lab i j start_iter stop_iter alpha n")
    case (Inl e)
    then show ?thesis by blast
  next
    case (Inr res')
    from returns[OF Inr] h show ?thesis by auto
  qed
  have p1: "mcbs_nsets (process_args_mcbs bssize alpha acalpha (Some n)) = n"
    using n by (simp add: process_args_mcbs_def)
  have p2: "mcbs_nsets (process_args_mcbs bssize alpha acalpha None) = bssize"
    by (simp add: process_args_mcbs_def)
  show "mcbs_nsets (process_args_mcbs bssize alpha acalpha (Some n)) = n
   \<and> mcbs_nsets (process_args_mcbs bssize alpha acalpha None) = bssize
   \<and> (ubi n alpha = Inr upper \<and> n \<le> upper \<longrightarrow>
        (\<exists>e. calc_ci_block rate_of ctime randint ns lab i j start_iter stop_iter alpha n = Inl e))
   \<and> (calc_ci_block rate_of ctime randint ns lab i j start_iter stop_iter alpha n = Inr res \<longrightarrow>
        (\<exists>lower upper. lbi n alpha = Inr lower \<and> ubi n alpha = Inr upper
           \<and> 0 \<le> lower \<and> lower \<le> upper \<and> upper < n))"
    using p1 p2 raises returns[of res] by blast
qed

theorem nsets_not_widened_witness:
  "(0::real) < 1 / 2 \<and> (1 / 2 :: real) < 1 \<and> (0::int) < 2
   \<and> mcbs_nsets (process_args_mcbs 1000 (1 / 2) None (Some 2)) = 2
   \<and> ubi 2 (1 / 2) = Inr 2 \<and> (2::int) \<le> 2
   \<and> (\<exists>e. calc_ci_block mean_rate 1 same_block 2 () 0 1 0 5 (1 / 2) 2 = Inl e)"
proof -
  have r: "float_round x = x" if "of_int \<lfloor>x * 2 ^ 2\<rfloor> = x * 2 ^ 2" "\<bar>x * 2 ^ 2\<bar> \<le> 2 ^ 53" for x
    using that by (intro float_round_exact[where j = 2]) simp_all
  have u: "ubi 2 (1 / 2) = Inr 2"
    by (simp add: ubi_def float_mul_int_def float_of_int_def float_mul_def float_half_def
          float_sub_def float_result_def float_max_def r)
  have p: "(0::real) < 1 / 2 \<and> (1 / 2 :: real) < 1 \<and> (0::int) < 2" by simp
  have "mcbs_nsets (process_args_mcbs 1000 (1 / 2) None (Some 2)) = 2
      \<and> (\<exists>e. calc_ci_block mean_rate 1 same_block 2 () 0 1 0 5 (1 / 2) 2 = Inl e)"
    using nsets_not_widened[of "1 / 2" 2 1000 None 2 mean_rate 1 same_block 2 "()" 0 1 0 5] p u
    by blast
  with p u show ?thesis by simp
qed

text \<open>
  Claim C3 as stated fails: with \<open>alpha = 0.5\<close> and a user-supplied \<open>n_sets = 2\<close> (less than
  \<open>2/alpha = 4\<close>), \<open>process_args\<close> keeps \<open>n_sets = 2\<close>, the upper position is \<open>2\<close>, which is
  not an index into two values, and \<open>_calc_ci_block\<close> raises \<open>IndexError\<close>.
\<close>

theorem nsets_not_widened_counterexample:
  "mcbs_nsets (process_args_mcbs 1000 (1 / 2) None (Some 2)) = 2
   \<and> \<not> (2 / (1 / 2) \<le> real_of_int 2)
   \<and> ubi 2 (1 / 2) = Inr 2
   \<and> calc_ci_block mean_rate 1 same_block 2 () 0 1 0 5 (1 / 2) 2 = Inl IndexError"
proof -
  have r: "float_round x = x" if "of_int \<lfloor>x * 2 ^ 2\<rfloor> = x * 2 ^ 2" "\<bar>x * 2 ^ 2\<bar> \<le> 2 ^ 53" for x
    using that by (intro float_round_exact[where j = 2]) simp_all
  have a: "mcbs_nsets (process_args_mcbs 1000 (1 / 2) None (Some 2)) = 2"
    by (simp add: process_args_mcbs_def)
  have l: "lbi 2 (1 / 2) = Inr 0"
    by (simp add: lbi_def float_mul_int_def float_of_int_def float_mul_def float_half_def
          float_result_def float_max_def r)
  have u: "ubi 2 (1 / 2) = Inr 2"
    by (simp add: ubi_def float_mul_int_def float_of_int_def float_mul_def float_half_def
          float_sub_def float_result_def float_max_def r)
  have c: "calc_ci_block mean_rate 1 same_block 2 () 0 1 0 5 (1 / 2) 2 = Inl IndexError"
    unfolding calc_ci_block_def l u by code_simp
  show ?thesis using a u c by simp
qed

lemma uintc_id: "0 \<le> x \<Longrightarrow> x < 2 ^ 32 \<Longrightarrow> uintc x = x"
  by (simp add: uintc_def)

lemma n_windows_shift: "n_windows (a + s) (b + s) s = n_windows a b s"
  by (simp add: n_windows_def)

lemma n_windows_pos: "0 < s \<Longrightarrow> a < b \<Longrightarrow> 0 < n_windows a b s"
  using n_windows_less_iff[of s 0 a b] by simp

lemma n_windows_reaches: "0 < s \<Longrightarrow> b \<le> a + int (n_windows a b s) * s"
  using n_windows_less_iff[of s "n_windows a b s" a b] by simp

lemma bootstrap_blocks_closed:
  assumes "0 \<le> start_iter" "start_iter < stop_iter" "0 < stride" "stop_iter + stride \<le> 2 ^ 32"
  shows "bootstrap_blocks start_iter stop_iter stride =
     Inr (map (nth_block_start start_iter stride) [0..<n_windows start_iter stop_iter stride],
          map (nth_block_stop start_iter stop_iter stride) [0..<n_windows start_iter stop_iter stride])"
proof -
  let ?n = "n_windows start_iter stop_iter stride"
  let ?raw = "map (\<lambda>k. start_iter + stride + int k * stride) [0..<?n]"
  have npos: "0 < ?n" using assms by (simp add: n_windows_pos)
  have below: "start_iter + int k * stride < stop_iter" if "k < ?n" for k
    using that assms(3) by (simp add: n_windows_less_iff)
  have nonneg: "0 \<le> int k * stride" for k using assms(3) by simp
  have starts: "map uintc (range_up start_iter stop_iter stride)
      = map (nth_block_start start_iter stride) [0..<?n]"
  proof -
    have "uintc (start_iter + int k * stride) = start_iter + int k * stride" if "k < ?n" for k
      using below[OF that] nonneg[of k] assms(1,3,4) by (intro uintc_id) linarith+
    then show ?thesis using assms(3) by (simp add: range_up_closed nth_block_start_def)
  qed
  have stops: "map uintc (range_up (start_iter + stride) (stop_iter + stride) stride) = ?raw"
  proof -
    have "uintc (start_iter + stride + int k * stride) = start_iter + stride + int k * stride"
      if "k < ?n" for k
      using below[OF that] nonneg[of k] assms(1,3,4) by (intro uintc_id) linarith+
    then show ?thesis using assms(3) by (simp add: range_up_closed n_windows_shift)
  qed
  have raw_ne: "?raw \<noteq> []" using npos by simp
  have last_raw: "last ?raw = start_iter + int ?n * stride"
    using npos by (simp add: last_map last_upt algebra_simps of_nat_diff)
  have reach: "stop_iter \<le> start_iter + int ?n * stride"
    using assms(3) by (rule n_windows_reaches)
  have capped: "(if last ?raw > stop_iter then ?raw[length ?raw - 1 := uintc stop_iter] else ?raw)
      = map (nth_block_stop start_iter stop_iter stride) [0..<?n]"
  proof (rule nth_equalityI)
    show "length (if last ?raw > stop_iter then ?raw[length ?raw - 1 := uintc stop_iter] else ?raw)
        = length (map (nth_block_stop start_iter stop_iter stride) [0..<?n])"
      by simp
  next
    fix k
    assume "k < length (if last ?raw > stop_iter
                         then ?raw[length ?raw - 1 := uintc stop_iter] else ?raw)"
    then have k: "k < ?n" by (simp split: if_splits)
    have us: "uintc stop_iter = stop_iter"
      using assms by (intro uintc_id) linarith+
    show "(if last ?raw > stop_iter then ?raw[length ?raw - 1 := uintc stop_iter] else ?raw) ! k
        = map (nth_block_stop start_iter stop_iter stride) [0..<?n] ! k"
    proof (cases "Suc k = ?n")
      case True
      then have kk: "k = ?n - 1" by simp
      have "int k + 1 = int ?n" using True by linarith
      then have bs: "nth_block_stop start_iter stop_iter stride k = stop_iter"
        using reach by (simp add: nth_block_stop_def)
      show ?thesis
      proof (cases "last ?raw > stop_iter")
        case gt: True
        then show ?thesis using k kk bs us by simp
      next
        case False
        with last_raw reach have "start_iter + int ?n * stride = stop_iter" by simp
        then have "start_iter + stride + int k * stride = stop_iter"
          using \<open>int k + 1 = int ?n\<close> by (metis add.assoc add.commute distrib_right mult_1)
        with False k bs show ?thesis by simp
      qed
    next
      case False
      with k have "Suc k < ?n" by simp
      from below[OF this] have "start_iter + (int k + 1) * stride < stop_iter"
        by (simp add: algebra_simps)
      then have bs: "nth_block_stop start_iter stop_iter stride k = start_iter + stride + int k * stride"
        by (simp add: nth_block_stop_def algebra_simps)
      show ?thesis using k False bs by (simp add: nth_list_update)
    qed
  qed
  show ?thesis
  proof (cases "last ?raw > stop_iter")
    case True
    with capped have "?raw[length ?raw - 1 := uintc stop_iter]
        = map (nth_block_stop start_iter stop_iter stride) [0..<?n]"
      by (simp only: if_True)
    with raw_ne True show ?thesis
      unfolding bootstrap_blocks_def Let_def starts stops by (simp only: if_True if_False)
  next
    case False
    with capped have "?raw = map (nth_block_stop start_iter stop_iter stride) [0..<?n]"
      by (simp only: if_False)
    with raw_ne False show ?thesis
      unfolding bootstrap_blocks_def Let_def starts stops by (simp only: if_True if_False)
  qed
qed

lemma range_up_1: "range_up a b 1 = map (\<lambda>i. a + int i) [0..<nat (b - a)]"
  by (simp add: range_up_closed n_windows_def)

lemma length_range_up_1: "length (range_up a b 1) = nat (b - a)"
  by (simp add: range_up_1)

lemma range_up_1_append:
  assumes "a \<le> b" "b \<le> c"
  shows "range_up a c 1 = range_up a b 1 @ range_up b c 1"
proof (rule nth_equalityI)
  show "length (range_up a c 1) = length (range_up a b 1 @ range_up b c 1)"
    using assms by (simp add: length_range_up_1)
next
  fix i
  assume "i < length (range_up a c 1)"
  then have i: "i < nat (c - a)" by (simp add: length_range_up_1)
  show "range_up a c 1 ! i = (range_up a b 1 @ range_up b c 1) ! i"
  proof (cases "i < nat (b - a)")
    case True
    with i show ?thesis by (simp add: range_up_1 nth_append)
  next
    case False
    then have "i - nat (b - a) < nat (c - b)" using i assms by linarith
    moreover have "a + int i = b + int (i - nat (b - a))" using False assms by linarith
    ultimately show ?thesis using i False by (simp add: range_up_1 nth_append)
  qed
qed

lemma nth_block_len_bounds:
  assumes "0 < stride" "k < n_windows start_iter stop_iter stride"
  shows "0 < nth_block_len start_iter stop_iter stride k"
    and "nth_block_len start_iter stop_iter stride k \<le> stride"
    and "Suc k < n_windows start_iter stop_iter stride \<Longrightarrow>
           nth_block_len start_iter stop_iter stride k = stride"
    and "stride dvd (stop_iter - start_iter) \<Longrightarrow> nth_block_len start_iter stop_iter stride k = stride"
proof -
  have lt: "start_iter + int k * stride < stop_iter"
    using assms by (simp add: n_windows_less_iff)
  show "0 < nth_block_len start_iter stop_iter stride k"
    using lt assms(1) by (simp add: nth_block_len_def nth_block_stop_def nth_block_start_def algebra_simps)
  show "nth_block_len start_iter stop_iter stride k \<le> stride"
    by (simp add: nth_block_len_def nth_block_stop_def nth_block_start_def algebra_simps)
  show "nth_block_len start_iter stop_iter stride k = stride"
    if "Suc k < n_windows start_iter stop_iter stride"
  proof -
    have "start_iter + int (Suc k) * stride < stop_iter"
      using that assms(1) n_windows_less_iff by blast
    then show ?thesis
      by (simp add: nth_block_len_def nth_block_stop_def nth_block_start_def algebra_simps)
  qed
  show "nth_block_len start_iter stop_iter stride k = stride"
    if "stride dvd (stop_iter - start_iter)"
  proof -
    from that obtain q where q: "stop_iter - start_iter = stride * q" by (elim dvdE)
    have "int k * stride < stride * q" using lt q by linarith
    then have "int k < q" using assms(1) by (simp add: mult.commute)
    then have "int k + 1 \<le> q" by simp
    then have "(int k + 1) * stride \<le> q * stride"
      using assms(1) by (intro mult_right_mono) simp_all
    then have "start_iter + (int k + 1) * stride \<le> stop_iter" using q by (simp add: mult.commute)
    then show ?thesis
      by (simp add: nth_block_len_def nth_block_stop_def nth_block_start_def algebra_simps)
  qed
qed

lemma resample_iters_blocks:
  assumes "list_all (\<lambda>b. b < n) picks"
  shows "resample_iters (map (nth_block_start start_iter stride) [0..<n])
            (map (nth_block_stop start_iter stop_iter stride) [0..<n]) picks
     = Inr (concat (map (\<lambda>b. range_up (nth_block_start start_iter stride b)
                                  (nth_block_stop start_iter stop_iter stride b) 1) picks))"
  using assms by (simp add: resample_iters_def list_all_iff cong: map_cong)

lemma length_concat_blocks:
  assumes "list_all (\<lambda>b. b < n_windows start_iter stop_iter stride) picks" "0 < stride"
  shows "int (length (concat (map (\<lambda>b. range_up (nth_block_start start_iter stride b)
                                  (nth_block_stop start_iter stop_iter stride b) 1) picks)))
      = (\<Sum>b\<leftarrow>picks. nth_block_len start_iter stop_iter stride b)"
  using assms
proof (induction picks)
  case Nil
  show ?case by simp
next
  case (Cons b picks)
  have "0 < nth_block_len start_iter stop_iter stride b"
    using Cons.prems by (intro nth_block_len_bounds(1)) simp_all
  then have "int (nat (nth_block_stop start_iter stop_iter stride b - nth_block_start start_iter stride b))
      = nth_block_len start_iter stop_iter stride b"
    by (simp add: nth_block_len_def)
  with Cons show ?case by (simp add: length_range_up_1)
qed

lemma concat_blocks_prefix:
  assumes "0 < stride" "m \<le> n_windows start_iter stop_iter stride"
  shows "concat (map (\<lambda>b. range_up (nth_block_start start_iter stride b)
                                  (nth_block_stop start_iter stop_iter stride b) 1) [0..<m])
      = range_up start_iter (min (start_iter + int m * stride) stop_iter) 1"
  using assms(2)
proof (induction m)
  case 0
  show ?case by (simp add: range_up.simps[of start_iter])
next
  case (Suc m)
  then have m: "m < n_windows start_iter stop_iter stride" by simp
  then have lt: "start_iter + int m * stride < stop_iter"
    using assms(1) by (simp add: n_windows_less_iff)
  have a: "min (start_iter + int m * stride) stop_iter = nth_block_start start_iter stride m"
    using lt by (simp add: nth_block_start_def)
  have b: "min (start_iter + int (Suc m) * stride) stop_iter = nth_block_stop start_iter stop_iter stride m"
    by (simp add: nth_block_stop_def algebra_simps)
  have "start_iter \<le> nth_block_start start_iter stride m"
    using assms(1) by (simp add: nth_block_start_def)
  moreover have "nth_block_start start_iter stride m \<le> nth_block_stop start_iter stop_iter stride m"
    using nth_block_len_bounds(1)[OF assms(1) m] by (simp add: nth_block_len_def)
  ultimately have "range_up start_iter (nth_block_stop start_iter stop_iter stride m) 1
      = range_up start_iter (nth_block_start start_iter stride m) 1
        @ range_up (nth_block_start start_iter stride m) (nth_block_stop start_iter stop_iter stride m) 1"
    by (rule range_up_1_append)
  with Suc a b show ?case by simp
qed

lemma concat_blocks_all:
  assumes "0 < stride"
  shows "concat (map (\<lambda>b. range_up (nth_block_start start_iter stride b)
                                  (nth_block_stop start_iter stop_iter stride b) 1)
                     [0..<n_windows start_iter stop_iter stride])
      = range_up start_iter stop_iter 1"
  using concat_blocks_prefix[OF assms order_refl, of start_iter stop_iter]
    n_windows_reaches[OF assms, of stop_iter start_iter]
  by (simp add: min_absorb2)

lemma sum_list_bounds:
  assumes "\<forall>b \<in> set picks. lo \<le> f b \<and> f b \<le> (hi::int)"
  shows "int (length picks) * lo \<le> (\<Sum>b\<leftarrow>picks. f b) \<and> (\<Sum>b\<leftarrow>picks. f b) \<le> int (length picks) * hi"
  using assms by (induction picks) (auto simp: algebra_simps)

lemma sum_list_const:
  assumes "\<forall>b \<in> set picks. f b = (c::int)"
  shows "(\<Sum>b\<leftarrow>picks. f b) = int (length picks) * c"
  using assms by (induction picks) (auto simp: algebra_simps)

lemma sequence_err_all_Inr: "sequence_err (map (\<lambda>x. Inr (f x)) xs) = Inr (map f xs)"
  by (induction xs) simp_all

lemma n_windows_dvd:
  assumes "0 < stride" "stride dvd (stop_iter - start_iter)" "start_iter \<le> stop_iter"
  shows "int (n_windows start_iter stop_iter stride) * stride = stop_iter - start_iter"
proof -
  from assms(2) obtain q where q: "stop_iter - start_iter = stride * q" by (elim dvdE)
  have "(stride * q + stride - 1) div stride = q"
  proof -
    have "(stride * q + (stride - 1)) div stride = q + (stride - 1) div stride"
      using assms(1) by (metis add.commute div_mult_self2 less_irrefl)
    also have "(stride - 1) div stride = 0" using assms(1) by (simp add: div_pos_pos_trivial)
    finally show ?thesis by (simp add: algebra_simps)
  qed
  moreover have "0 \<le> q" using q assms(1,3)
    by (metis diff_ge_0_iff_ge zero_le_mult_iff not_less order_less_imp_le)
  ultimately show ?thesis using q by (simp add: n_windows_def mult.commute)
qed

text \<open>
  Claim C1, amended. For a window \<open>0 \<le> start_iter < stop_iter\<close> (within the range of
  \<open>uintc\<close>) and \<open>stride = corr_len + 1\<close>, the window is cut into
  \<open>nblocks = ceil((stop_iter - start_iter) / stride)\<close> contiguous blocks of length \<open>stride\<close>,
  the last one possibly shorter and retained: read in order they are the window. Each of
  the \<open>n_sets\<close> resamples is built from exactly \<open>nblocks\<close> draws with replacement; the
  number of iterations it averages is the sum of the lengths of the blocks drawn, between
  \<open>nblocks\<close> and \<open>nblocks * stride\<close>, and equals \<open>stop_iter - start_iter\<close> whenever
  \<open>stride\<close> divides the window length.
\<close>

theorem resample_draws_nblocks:
  "0 \<le> start_iter \<and> start_iter < stop_iter \<and> stop_iter + (int ctime + 1) \<le> 2 ^ 32 \<longrightarrow>
   (let stride = int ctime + 1;
        nblocks = n_windows start_iter stop_iter stride;
        starts = map (nth_block_start start_iter stride) [0..<nblocks];
        stops = map (nth_block_stop start_iter stop_iter stride) [0..<nblocks]
    in bootstrap_blocks start_iter stop_iter stride = Inr (starts, stops)
       \<and> 0 < nblocks
       \<and> resample_iters starts stops [0..<nblocks] = Inr (range_up start_iter stop_iter 1)
       \<and> (\<forall>k < nblocks.
              0 < nth_block_len start_iter stop_iter stride k
              \<and> nth_block_len start_iter stop_iter stride k \<le> stride
              \<and> (Suc k < nblocks \<longrightarrow> nth_block_len start_iter stop_iter stride k = stride))
       \<and> (\<forall>picks. length picks = nblocks \<and> (\<forall>b \<in> set picks. b < nblocks) \<longrightarrow>
              (\<exists>its. resample_iters starts stops picks = Inr its
                 \<and> int (length its) = (\<Sum>b\<leftarrow>picks. nth_block_len start_iter stop_iter stride b)
                 \<and> int nblocks \<le> int (length its)
                 \<and> int (length its) \<le> int nblocks * stride
                 \<and> (stride dvd (stop_iter - start_iter) \<longrightarrow>
                      int (length its) = stop_iter - start_iter)))
       \<and> ((\<forall>iset b. randint iset b < nblocks) \<longrightarrow>
            synth_rates rate_of randint starts stops nsets =
              Inr (map (\<lambda>iset. rate_of (concat (map
                          (\<lambda>b. range_up (nth_block_start start_iter stride b)
                                         (nth_block_stop start_iter stop_iter stride b) 1)
                          (map (randint iset) [0..<nblocks]))))
                       [0..<nat nsets])))"
proof (intro impI, elim conjE)
  assume h: "0 \<le> start_iter" "start_iter < stop_iter" "stop_iter + (int ctime + 1) \<le> 2 ^ 32"
  define stride where "stride = int ctime + 1"
  define nblocks where "nblocks = n_windows start_iter stop_iter stride"
  define starts where "starts = map (nth_block_start start_iter stride) [0..<nblocks]"
  define stops where "stops = map (nth_block_stop start_iter stop_iter stride) [0..<nblocks]"
  have sp: "0 < stride" by (simp add: stride_def)
  have blocks: "bootstrap_blocks start_iter stop_iter stride = Inr (starts, stops)"
    unfolding starts_def stops_def nblocks_def
    using h sp by (intro bootstrap_blocks_closed) (simp_all add: stride_def)
  have npos: "0 < nblocks"
    unfolding nblocks_def using sp h(2) by (rule n_windows_pos)
  have ident: "resample_iters starts stops [0..<nblocks] = Inr (range_up start_iter stop_iter 1)"
  proof -
    have "list_all (\<lambda>b. b < nblocks) [0..<nblocks]" by (simp add: list_all_iff)
    then show ?thesis
      unfolding starts_def stops_def
      by (simp add: resample_iters_blocks nblocks_def concat_blocks_all[OF sp])
  qed
  have lens: "0 < nth_block_len start_iter stop_iter stride k
              \<and> nth_block_len start_iter stop_iter stride k \<le> stride
              \<and> (Suc k < nblocks \<longrightarrow> nth_block_len start_iter stop_iter stride k = stride)"
    if "k < nblocks" for k
    using that nth_block_len_bounds(1,2,3)[OF sp, of k start_iter stop_iter]
    unfolding nblocks_def by blast
  have res: "\<exists>its. resample_iters starts stops picks = Inr its
                 \<and> int (length its) = (\<Sum>b\<leftarrow>picks. nth_block_len start_iter stop_iter stride b)
                 \<and> int nblocks \<le> int (length its)
                 \<and> int (length its) \<le> int nblocks * stride
                 \<and> (stride dvd (stop_iter - start_iter) \<longrightarrow>
                      int (length its) = stop_iter - start_iter)"
    if p: "length picks = nblocks" "\<forall>b \<in> set picks. b < nblocks" for picks
  proof -
    let ?its = "concat (map (\<lambda>b. range_up (nth_block_start start_iter stride b)
                                  (nth_block_stop start_iter stop_iter stride b) 1) picks)"
    have pa: "list_all (\<lambda>b. b < nblocks) picks" using p(2) by (simp add: list_all_iff)
    have r: "resample_iters starts stops picks = Inr ?its"
      unfolding starts_def stops_def using pa by (rule resample_iters_blocks)
    have len: "int (length ?its) = (\<Sum>b\<leftarrow>picks. nth_block_len start_iter stop_iter stride b)"
      using pa sp unfolding nblocks_def by (rule length_concat_blocks)
    have "\<forall>b \<in> set picks. 1 \<le> nth_block_len start_iter stop_iter stride b
              \<and> nth_block_len start_iter stop_iter stride b \<le> stride"
      using p(2) lens by force
    from sum_list_bounds[OF this] p(1) len
    have bounds: "int nblocks \<le> int (length ?its)" "int (length ?its) \<le> int nblocks * stride"
      by simp_all
    have dv: "int (length ?its) = stop_iter - start_iter"
      if d: "stride dvd (stop_iter - start_iter)"
    proof -
      have "\<forall>b \<in> set picks. nth_block_len start_iter stop_iter stride b = stride"
        using p(2) nth_block_len_bounds(4)[OF sp _ d] unfolding nblocks_def by blast
      from sum_list_const[OF this] len p(1)
      have "int (length ?its) = int nblocks * stride" by simp
      also have "\<dots> = stop_iter - start_iter"
        unfolding nblocks_def using sp d h(2) by (intro n_windows_dvd) simp_all
      finally show ?thesis .
    qed
    show ?thesis using r len bounds dv by blast
  qed
  have syn: "synth_rates rate_of randint starts stops nsets =
              Inr (map (\<lambda>iset. rate_of (concat (map
                          (\<lambda>b. range_up (nth_block_start start_iter stride b)
                                         (nth_block_stop start_iter stop_iter stride b) 1)
                          (map (randint iset) [0..<nblocks]))))
                       [0..<nat nsets])"
    if d: "\<forall>iset b. randint iset b < nblocks"
  proof -
    have "resample_iters starts stops (map (randint iset) [0..<length starts])
        = Inr (concat (map (\<lambda>b. range_up (nth_block_start start_iter stride b)
                                         (nth_block_stop start_iter stop_iter stride b) 1)
                          (map (randint iset) [0..<nblocks])))" for iset
    proof -
      have "list_all (\<lambda>b. b < nblocks) (map (randint iset) [0..<nblocks])"
        using d by (simp add: list_all_iff)
      moreover have "length starts = nblocks" by (simp add: starts_def)
      ultimately show ?thesis
        unfolding starts_def stops_def by (simp only: resample_iters_blocks)
    qed
    then show ?thesis
      unfolding synth_rates_def by (simp add: sequence_err_all_Inr)
  qed
  show "let stride = int ctime + 1;
        nblocks = n_windows start_iter stop_iter stride;
        starts = map (nth_block_start start_iter stride) [0..<nblocks];
        stops = map (nth_block_stop start_iter stop_iter stride) [0..<nblocks]
    in bootstrap_blocks start_iter stop_iter stride = Inr (starts, stops)
       \<and> 0 < nblocks
       \<and> resample_iters starts stops [0..<nblocks] = Inr (range_up start_iter stop_iter 1)
       \<and> (\<forall>k < nblocks.
              0 < nth_block_len start_iter stop_iter stride k
              \<and> nth_block_len start_iter stop_iter stride k \<le> stride
              \<and> (Suc k < nblocks \<longrightarrow> nth_block_len start_iter stop_iter stride k = stride))
       \<and> (\<forall>picks. length picks = nblocks \<and> (\<forall>b \<in> set picks. b < nblocks) \<longrightarrow>
              (\<exists>its. resample_iters starts stops picks = Inr its
                 \<and> int (length its) = (\<Sum>b\<leftarrow>picks. nth_block_len start_iter stop_iter stride b)
                 \<and> int nblocks \<le> int (length its)
                 \<and> int (length its) \<le> int nblocks * stride
                 \<and> (stride dvd (stop_iter - start_iter) \<longrightarrow>
                      int (length its) = stop_iter - start_iter)))
       \<and> ((\<forall>iset b. randint iset b < nblocks) \<longrightarrow>
            synth_rates rate_of randint starts stops nsets =
              Inr (map (\<lambda>iset. rate_of (concat (map
                          (\<lambda>b. range_up (nth_block_start start_iter stride b)
                                         (nth_block_stop start_iter stop_iter stride b) 1)
                          (map (randint iset) [0..<nblocks]))))
                       [0..<nat nsets]))"
    unfolding Let_def
    using blocks npos ident lens res syn
    unfolding stride_def[symmetric] nblocks_def[symmetric] starts_def[symmetric] stops_def[symmetric]
    by blast
qed

theorem resample_draws_nblocks_witness:
  "(0::int) \<le> 0 \<and> (0::int) < 5 \<and> (5::int) + (int 1 + 1) \<le> 2 ^ 32
   \<and> bootstrap_blocks 0 5 (int 1 + 1) = Inr ([0, 2, 4], [2, 4, 5])
   \<and> n_windows 0 5 (int 1 + 1) = 3
   \<and> resample_iters [0, 2, 4] [2, 4, 5] [0..<3] = Inr (range_up 0 5 1)"
  using resample_draws_nblocks[where start_iter = 0 and stop_iter = 5 and ctime = 1
      and randint = same_block and rate_of = mean_rate and nsets = 1]
  by (simp add: Let_def n_windows_def nth_block_start_def nth_block_stop_def upt_rec)

text \<open>
  Claim C1 as stated fails: for the window \<open>[0, 5)\<close> with \<open>corr_len = 1\<close> the blocks are
  \<open>[0,2), [2,4), [4,5)\<close>; a resample whose three draws all pick the last block averages
  three iterations, not five.
\<close>

theorem resample_length_counterexample:
  "bootstrap_blocks 0 5 (int 1 + 1) = Inr ([0, 2, 4], [2, 4, 5])
   \<and> map (last_of_three 0) [0..<length [0, 2, 4 :: int]] = [2, 2, 2]
   \<and> resample_iters [0, 2, 4] [2, 4, 5] [2, 2, 2] = Inr [4, 4, 4]
   \<and> synth_rates iters_averaged last_of_three [0, 2, 4] [2, 4, 5] 1 = Inr [3]
   \<and> (3::real) \<noteq> of_int (5 - 0)"
proof -
  have a: "bootstrap_blocks 0 5 (int 1 + 1) = Inr ([0, 2, 4], [2, 4, 5])" by code_simp
  have b: "map (last_of_three 0) [0..<length [0, 2, 4 :: int]] = [2, 2, 2]" by code_simp
  have c: "resample_iters [0, 2, 4] [2, 4, 5] [2, 2, 2] = Inr [4, 4, 4]" by code_simp
  have d: "synth_rates iters_averaged last_of_three [0, 2, 4] [2, 4, 5] 1 = Inr [3]" by code_simp
  show ?thesis using a b c d by simp
qed

section \<open>Properties of the aggregation of results\<close>





lemma set3_length:
  assumes "set3 a i j k v = Inr a'"
  shows "length a' = length a" "length (a' ! i') = length (a ! i')"
    "length (a' ! i' ! j') = length (a ! i' ! j')"
  using assms
  by (auto simp: set3_def nth_list_update split: if_splits)




lemma consume_evol_Inl_mem:
  "Inl e \<in> set futures \<Longrightarrow> \<exists>e'. consume_evol futures evol = Inl e'"
proof (induction futures arbitrary: evol)
  case Nil
  then show ?case by simp
next
  case (Cons f fs)
  show ?case
  proof (cases f)
    case (Inl e0)
    then show ?thesis by simp
  next
    case (Inr r)
    with Cons.prems have mem: "Inl e \<in> set fs" by auto
    obtain b i j c where r: "r = (b, i, j, c)" by (cases r)
    show ?thesis
    proof (cases "set3 evol b i j c")
      case (Inl e1)
      then show ?thesis using Inr r by simp
    next
      case s: (Inr evol')
      from Cons.IH[OF mem, of evol'] show ?thesis using Inr r s by simp
    qed
  qed
qed

lemma consume_evol_first_failure:
  "consume_evol (map Inr rs) evol = Inr evol' \<Longrightarrow>
   consume_evol (map Inr rs @ Inl e # rest) evol = Inl e"
proof (induction rs arbitrary: evol)
  case Nil
  then show ?case by simp
next
  case (Cons r rs)
  obtain b i j c where r: "r = (b, i, j, c)" by (cases r)
  show ?case
  proof (cases "set3 evol b i j c")
    case (Inl e1)
    with Cons.prems r show ?thesis by simp
  next
    case s: (Inr evol1)
    with Cons.prems r have "consume_evol (map Inr rs) evol1 = Inr evol'" by simp
    from Cons.IH[OF this] show ?thesis using r s by simp
  qed
qed








lemma sequence_err_map_fst:
  "sequence_err (map (\<lambda>(i, s). case h s of Inl e \<Rightarrow> Inl e | Inr w \<Rightarrow> Inr (i, w)) xs) = Inr ys
   \<Longrightarrow> map fst ys = map fst xs"
  by (induction xs arbitrary: ys) (auto split: sum.splits)

lemma evol_windows_Inr:
  assumes "evol_windows mode wfrac start_iter stop_iter step_iter = Inr windows"
  shows "\<exists>start_pts. py_range start_iter stop_iter step_iter = Inr start_pts
           \<and> map fst windows = map fst (enumerate 0 start_pts)"
proof -
  from assms obtain start_pts where
    r: "py_range start_iter stop_iter step_iter = Inr start_pts" and
    w: "sequence_err
            (map (\<lambda>(iblock, start).
                    case block_window mode wfrac start_iter stop_iter step_iter start of
                      Inl e \<Rightarrow> Inl e
                    | Inr window \<Rightarrow> Inr (iblock, window))
                 (enumerate 0 start_pts)) = Inr windows"
    by (auto simp: evol_windows_def split: sum.splits)
  from w have "map fst windows = map fst (enumerate 0 start_pts)"
    by (rule sequence_err_map_fst)
  with r show ?thesis by blast
qed


lemma evol_windows_length:
  assumes "evol_windows mode wfrac start_iter stop_iter step_iter = Inr windows"
    and "py_range start_iter stop_iter step_iter = Inr start_pts"
  shows "length start_pts = length windows"
proof -
  from evol_windows_Inr[OF assms(1)] assms(2)
  have "map fst windows = map fst (enumerate 0 start_pts)" by auto
  then have "length (map fst windows) = length (map fst (enumerate 0 start_pts))" by simp
  then show ?thesis by simp
qed

lemma submit_evol_no_pairs: "state_pairs n = [] \<Longrightarrow> submit_evol unit n windows = []"
  by (simp add: submit_evol_def)

lemma go_matrix_evolution:
  assumes "consume_avg (avg_order (map (\<lambda>(istate, jstate). avg_unit istate jstate)
              (state_pairs (nstates self)))) (zeros2 (nstates self) (nstates self) zero) = Inr avg_rates"
    and "create_dataset file0 ''avg_rates'' (Arr2 avg_rates) = Inr file1"
    and "stamp_named self file1 ''avg_rates'' = Inr file2"
    and "state_labels self \<noteq> []"
    and "evolution_mode self \<noteq> NoEvolution" "iter_range_step self \<noteq> 0"
    and "evol_windows (evolution_mode self) (evol_window_frac self)
                (iter_range_start self) (iter_range_stop self) (iter_range_step self) = Inr windows"
  shows "go_matrix self zero avg_unit evol_unit avg_order evol_order file0 =
     (case consume_evol (evol_order (submit_evol evol_unit (nstates self) windows))
                (zeros3 (length windows) (nstates self) (nstates self) zero) of
           Inl e \<Rightarrow> (Some e, file2)
         | Inr evol \<Rightarrow>
        (case create_dataset file2 ''rate_evolution'' (Arr3 evol) of
           Inl e \<Rightarrow> (Some e, file2)
         | Inr file3 \<Rightarrow>
        (case stamp_named self file3 ''rate_evolution'' of
           Inl e \<Rightarrow> (Some e, file3)
         | Inr file4 \<Rightarrow> (None, file4))))"
proof -
  from evol_windows_Inr[OF assms(7)] obtain start_pts where
    r: "py_range (iter_range_start self) (iter_range_stop self) (iter_range_step self)
          = Inr start_pts"
    by blast
  note len = evol_windows_length[OF assms(7) r]
  show ?thesis
  proof (cases "state_pairs (nstates self) = []")
    case True
    then have "submit_evol evol_unit (nstates self) windows = submit_evol evol_unit (nstates self) []"
      by (simp add: submit_evol_no_pairs)
    then show ?thesis
      using assms(1-6) r len True by (simp add: go_matrix_def Let_def)
  next
    case False
    then show ?thesis
      using assms r len by (simp add: go_matrix_def Let_def)
  qed
qed


lemma go_matrix_cases:
  obtains (early) e outfile where
      "\<And>evol_unit evol_order.
         go_matrix self zero avg_unit evol_unit avg_order evol_order file0 = (e, outfile)"
      "outfile ''rate_evolution'' = file0 ''rate_evolution''"
      "e = None \<longrightarrow> evolution_mode self = NoEvolution \<or> iter_range_step self = 0"
  | (evolution) avg_rates file1 file2 windows where
      "consume_avg (avg_order (map (\<lambda>(istate, jstate). avg_unit istate jstate)
              (state_pairs (nstates self)))) (zeros2 (nstates self) (nstates self) zero) = Inr avg_rates"
      "create_dataset file0 ''avg_rates'' (Arr2 avg_rates) = Inr file1"
      "stamp_named self file1 ''avg_rates'' = Inr file2"
      "state_labels self \<noteq> []"
      "evolution_mode self \<noteq> NoEvolution" "iter_range_step self \<noteq> 0"
      "evol_windows (evolution_mode self) (evol_window_frac self)
                (iter_range_start self) (iter_range_stop self) (iter_range_step self) = Inr windows"
      "file2 ''rate_evolution'' = file0 ''rate_evolution''"
  | (no_pairs) avg_rates file1 file2 start_pts where
      "consume_avg (avg_order (map (\<lambda>(istate, jstate). avg_unit istate jstate)
              (state_pairs (nstates self)))) (zeros2 (nstates self) (nstates self) zero) = Inr avg_rates"
      "create_dataset file0 ''avg_rates'' (Arr2 avg_rates) = Inr file1"
      "stamp_named self file1 ''avg_rates'' = Inr file2"
      "state_labels self \<noteq> []"
      "evolution_mode self \<noteq> NoEvolution" "iter_range_step self \<noteq> 0"
      "state_pairs (nstates self) = []"
      "py_range (iter_range_start self) (iter_range_stop self) (iter_range_step self)
          = Inr start_pts"
      "file2 ''rate_evolution'' = file0 ''rate_evolution''"
proof -
  let ?avg = "consume_avg (avg_order (map (\<lambda>(istate, jstate). avg_unit istate jstate)
              (state_pairs (nstates self)))) (zeros2 (nstates self) (nstates self) zero)"
  show ?thesis
  proof (cases ?avg)
    case (Inl e)
    then show ?thesis by (intro early[of "Some e" file0]) (simp_all add: go_matrix_def Let_def)
  next
    case a: (Inr avg_rates)
    show ?thesis
    proof (cases "create_dataset file0 ''avg_rates'' (Arr2 avg_rates)")
      case (Inl e)
      with a show ?thesis by (intro early[of "Some e" file0]) (simp_all add: go_matrix_def Let_def)
    next
      case c: (Inr file1)
      then have f1: "file1 ''rate_evolution'' = file0 ''rate_evolution''"
        by (auto simp: create_dataset_def split: option.splits)
      show ?thesis
      proof (cases "stamp_named self file1 ''avg_rates''")
        case (Inl e)
        with a c f1 show ?thesis
          by (intro early[of "Some e" file1]) (simp_all add: go_matrix_def Let_def)
      next
        case s: (Inr file2)
        then have f2: "file2 ''rate_evolution'' = file0 ''rate_evolution''"
          using f1 by (auto simp: stamp_named_def split: option.splits)
        show ?thesis
        proof (cases "state_labels self = []")
          case True
          with a c s f2 show ?thesis
            by (intro early[of "Some ValueError" file2]) (simp_all add: go_matrix_def Let_def)
        next
          case l: False
          show ?thesis
          proof (cases "evolution_mode self = NoEvolution \<or> iter_range_step self = 0")
            case True
            with a c s f2 l show ?thesis
              by (intro early[of None file2]) (auto simp: go_matrix_def Let_def)
          next
            case m: False
            then have "\<exists>start_pts.
                py_range (iter_range_start self) (iter_range_stop self) (iter_range_step self)
                  = Inr start_pts"
              by (simp add: py_range_def)
            then obtain start_pts where
              r: "py_range (iter_range_start self) (iter_range_stop self) (iter_range_step self)
                    = Inr start_pts"
              by blast
            show ?thesis
            proof (cases "evol_windows (evolution_mode self) (evol_window_frac self)
                (iter_range_start self) (iter_range_stop self) (iter_range_step self)")
              case w: (Inl e)
              show ?thesis
              proof (cases "state_pairs (nstates self) = []")
                case True
                with a c s f2 l m r show ?thesis
                  by (intro no_pairs[of avg_rates file1 file2 start_pts]) auto
              next
                case False
                with a c s f2 l m r w show ?thesis
                  by (intro early[of "Some e" file2]) (auto simp: go_matrix_def Let_def)
              qed
            next
              case (Inr windows)
              with a c s f2 l m show ?thesis
                by (intro evolution[of avg_rates file1 file2 windows]) auto
            qed
          qed
        qed
      qed
    qed
  qed
qed


















lemma consume_trace_Inl_mem:
  "Inl e \<in> set futures \<Longrightarrow> \<exists>e'. consume_trace futures (t, f, r) = Inl e'"
proof (induction futures arbitrary: t f r)
  case Nil
  then show ?case by simp
next
  case (Cons x fs)
  show ?case
  proof (cases x)
    case (Inl e0)
    then show ?thesis by simp
  next
    case (Inr res)
    with Cons.prems have mem: "Inl e \<in> set fs" by auto
    obtain xt xc xr where res: "res = (xt, xc, xr)" by (cases res)
    show ?thesis
      using Inr res Cons.IH[OF mem]
      by (simp split: sum.splits)
  qed
qed



text \<open>
  Claim C7, amended. A unit that raises is not isolated: \<open>get_result\<close> re-raises its
  exception inside the \<open>as_completed\<close> loop, which has no handler. The loop ends at the
  first failed future (results completing later are not stored), \<open>go\<close> ends with an
  exception, and no \<open>rate_evolution\<close> dataset is written; there is no per-slot failure
  marker and no report of failed slots. The loop of the trace subcommand ends with an
  exception in the same way.
\<close>

theorem unit_failure_aborts_evolution:
  "(Inl e \<in> set trace_completed \<longrightarrow>
        (\<exists>e'. consume_trace trace_completed (target_evol, flux_evol, rate_evol) = Inl e'))
   \<and> (Inl e \<in> set completed \<longrightarrow> (\<exists>e'. consume_evol completed evol = Inl e'))
   \<and> (consume_evol (map Inr rs) evol = Inr evol' \<longrightarrow>
        consume_evol (map Inr rs @ Inl e # rest) evol = Inl e)
   \<and> ((\<forall>fs. mset (evol_order fs) = mset fs)
        \<and> evolution_mode self \<noteq> NoEvolution \<and> iter_range_step self \<noteq> 0
        \<and> evol_windows (evolution_mode self) (evol_window_frac self)
              (iter_range_start self) (iter_range_stop self) (iter_range_step self) = Inr windows
        \<and> Inl e \<in> set (submit_evol evol_unit (nstates self) windows)
        \<and> file0 ''rate_evolution'' = None \<longrightarrow>
        (\<exists>e'. fst (go_matrix self zero avg_unit evol_unit avg_order evol_order file0) = Some e')
        \<and> snd (go_matrix self zero avg_unit evol_unit avg_order evol_order file0)
              ''rate_evolution'' = None)"
proof (intro conjI impI)
  assume "Inl e \<in> set trace_completed"
  then show "\<exists>e'. consume_trace trace_completed (target_evol, flux_evol, rate_evol) = Inl e'"
    by (rule consume_trace_Inl_mem)
next
  assume "Inl e \<in> set completed"
  then show "\<exists>e'. consume_evol completed evol = Inl e'" by (rule consume_evol_Inl_mem)
next
  assume "consume_evol (map Inr rs) evol = Inr evol'"
  then show "consume_evol (map Inr rs @ Inl e # rest) evol = Inl e"
    by (rule consume_evol_first_failure)
next
  assume h: "(\<forall>fs. mset (evol_order fs) = mset fs)
        \<and> evolution_mode self \<noteq> NoEvolution \<and> iter_range_step self \<noteq> 0
        \<and> evol_windows (evolution_mode self) (evol_window_frac self)
              (iter_range_start self) (iter_range_stop self) (iter_range_step self) = Inr windows
        \<and> Inl e \<in> set (submit_evol evol_unit (nstates self) windows)
        \<and> file0 ''rate_evolution'' = None"
  let ?go = "go_matrix self zero avg_unit evol_unit avg_order evol_order file0"
  have "(\<exists>e'. fst ?go = Some e') \<and> snd ?go ''rate_evolution'' = None"
  proof (cases rule: go_matrix_cases[of self zero avg_unit avg_order file0])
    case (early e0 outfile)
    then have "?go = (e0, outfile)" by blast
    moreover have "e0 \<noteq> None" using early(3) h by blast
    ultimately show ?thesis using early(2) h by auto
  next
    case (evolution avg_rates file1 file2 windows')
    with h have w: "windows' = windows" by simp
    let ?fs = "submit_evol evol_unit (nstates self) windows"
    have "set (evol_order ?fs) = set ?fs" using h by (metis mset_eq_setD)
    with h have "Inl e \<in> set (evol_order ?fs)" by simp
    from consume_evol_Inl_mem[OF this] obtain e' where
      "consume_evol (evol_order ?fs) (zeros3 (length windows) (nstates self) (nstates self) zero)
         = Inl e'"
      by blast
    then have "?go = (Some e', file2)"
      unfolding go_matrix_evolution[where avg_unit = avg_unit and avg_order = avg_order and self = self
          and zero = zero, OF evolution(1-7)] w by simp
    then show ?thesis using evolution(8) h by simp
  next
    case (no_pairs avg_rates file1 file2 start_pts)
    then have "submit_evol evol_unit (nstates self) windows = []"
      by (simp add: submit_evol_no_pairs)
    with h show ?thesis by simp
  qed
  then show "\<exists>e'. fst ?go = Some e'"
    and "snd ?go ''rate_evolution'' = None" by blast+
qed

text \<open>
  Claim C7 as stated fails: with two states and two windows, when the unit of window 1,
  pair \<open>(0, 1)\<close> raises, \<open>go\<close> ends with that exception and the output file has no
  \<open>rate_evolution\<close> dataset, although the three other units returned their results.
\<close>

theorem unit_failure_counterexample:
  "consume_evol [Inr (0, 0, 1, (0, 5)), Inl UnitFailure, Inr (0, 1, 0, (0, 5))]
       (zeros3 2 2 2 (0::int, 0::int)) = Inl UnitFailure
   \<and> submit_evol demo_failing_unit 2 [(0, 0, 5), (1, 5, 10)]
       = [Inr (0, 0, 1, (0, 5)), Inl UnitFailure, Inr (0, 1, 0, (0, 5)), Inr (1, 1, 0, (5, 10))]
   \<and> fst (go_matrix demo_self (0, 0) demo_avg_unit demo_failing_unit id id Map.empty)
       = Some UnitFailure
   \<and> snd (go_matrix demo_self (0, 0) demo_avg_unit demo_failing_unit id id Map.empty)
         ''rate_evolution'' = None"
proof -
  have a: "consume_evol [Inr (0, 0, 1, (0, 5)), Inl UnitFailure, Inr (0, 1, 0, (0, 5))]
       (zeros3 2 2 2 (0::int, 0::int)) = Inl UnitFailure"
    by code_simp
  have b: "submit_evol demo_failing_unit 2 [(0, 0, 5), (1, 5, 10)]
       = [Inr (0, 0, 1, (0, 5)), Inl UnitFailure, Inr (0, 1, 0, (0, 5)), Inr (1, 1, 0, (5, 10))]"
    by code_simp
  have c: "fst (go_matrix demo_self (0, 0) demo_avg_unit demo_failing_unit id id Map.empty)
       = Some UnitFailure"
    by code_simp
  have d: "snd (go_matrix demo_self (0, 0) demo_avg_unit demo_failing_unit id id Map.empty)
         ''rate_evolution'' = None"
    by code_simp
  show ?thesis using a b c d by blast
qed

theorem unit_failure_aborts_evolution_witness:
  "(\<forall>fs :: (py_error + nat \<times> nat \<times> nat \<times> int \<times> int) list. mset (id fs) = mset fs)
   \<and> evolution_mode demo_self \<noteq> NoEvolution \<and> iter_range_step demo_self \<noteq> 0
   \<and> evol_windows (evolution_mode demo_self) (evol_window_frac demo_self)
         (iter_range_start demo_self) (iter_range_stop demo_self) (iter_range_step demo_self)
       = Inr [(0, 0, 5), (1, 5, 10)]
   \<and> Inl UnitFailure \<in> set (submit_evol demo_failing_unit (nstates demo_self) [(0, 0, 5), (1, 5, 10)])
   \<and> (\<exists>e'. fst (go_matrix demo_self (0, 0) demo_avg_unit demo_failing_unit id id Map.empty)
              = Some e')
   \<and> snd (go_matrix demo_self (0, 0) demo_avg_unit demo_failing_unit id id Map.empty)
         ''rate_evolution'' = None"
proof -
  have p: "\<forall>fs :: (py_error + nat \<times> nat \<times> nat \<times> int \<times> int) list. mset (id fs) = mset fs"
    by simp
  have m: "evolution_mode demo_self \<noteq> NoEvolution" "iter_range_step demo_self \<noteq> 0"
    by (simp_all add: demo_self_def)
  have w: "evol_windows (evolution_mode demo_self) (evol_window_frac demo_self)
         (iter_range_start demo_self) (iter_range_stop demo_self) (iter_range_step demo_self)
       = Inr [(0, 0, 5), (1, 5, 10)]"
    by code_simp
  have f: "Inl UnitFailure
      \<in> set (submit_evol demo_failing_unit (nstates demo_self) [(0, 0, 5), (1, 5, 10)])"
    by code_simp
  have e: "(Map.empty :: (int \<times> int) h5file) ''rate_evolution'' = None" by simp
  note t = unit_failure_aborts_evolution[where evol_order = id and self = demo_self
        and evol_unit = demo_failing_unit and avg_unit = demo_avg_unit and avg_order = id
        and zero = "(0, 0)" and windows = "[(0, 0, 5), (1, 5, 10)]" and e = UnitFailure,
      THEN conjunct2, THEN conjunct2, THEN conjunct2, THEN mp]
  have "(\<exists>e'. fst (go_matrix demo_self (0, 0) demo_avg_unit demo_failing_unit id id Map.empty)
              = Some e')
   \<and> snd (go_matrix demo_self (0, 0) demo_avg_unit demo_failing_unit id id Map.empty)
         ''rate_evolution'' = None"
    using p m w f e by (intro t) blast
  with p m w f show ?thesis by blast
qed

section \<open>Properties of block averaging\<close>













section \<open>Properties of the attributes of the output datasets\<close>

lemma stamped_stamp_mcbs_info: "stamped self (stamp_mcbs_info self ds)"
  by (simp add: stamped_def stamp_mcbs_info_def)

lemma stamp_inv_empty: "stamp_inv self Map.empty"
  by (simp add: stamp_inv_def)

lemma stamp_inv_stamped:
  "stamp_inv self file \<Longrightarrow> name \<in> set ci_names \<Longrightarrow>
   stamp_inv self (file(name \<mapsto> stamp_mcbs_info self ds))"
  by (simp add: stamp_inv_def stamped_stamp_mcbs_info)

lemma stamp_inv_unstamped:
  "stamp_inv self file \<Longrightarrow> name \<notin> set ci_names \<Longrightarrow>
   stamp_inv self (file(name \<mapsto> \<lparr>content = d, attrs = Map.empty\<rparr>))"
  by (simp add: stamp_inv_def)

lemma write_stamp:
  assumes "file name = None"
  shows "run_steps (write_ds name d # stamp_ds self name # steps) file
       = run_steps steps (file(name \<mapsto> stamp_mcbs_info self \<lparr>content = d, attrs = Map.empty\<rparr>))"
  using assms by (simp add: write_ds_def stamp_ds_def create_dataset_def stamp_named_def)

lemma go_matrix_all_stamped:
  assumes "\<forall>name ds. file0 name = Some ds \<longrightarrow> stamped self ds"
  shows "snd (go_matrix self zero avg_unit evol_unit avg_order evol_order file0) name = Some ds
     \<Longrightarrow> stamped self ds"
  using assms
  by (auto simp: go_matrix_def Let_def create_dataset_def stamp_named_def
        stamped_stamp_mcbs_info split: sum.splits option.splits if_splits)

lemma write_ds_inv:
  assumes "name \<notin> set ci_names" "stamp_inv self fl"
  shows "stamp_inv self (snd (write_ds name d fl))"
  using assms
  by (auto simp: write_ds_def create_dataset_def stamp_inv_unstamped split: option.splits)

lemma run_steps_inv:
  assumes "\<forall>step \<in> set steps. \<forall>f. P f \<longrightarrow> P (snd (step f))" "P fl"
  shows "P (snd (run_steps steps fl))"
  using assms
proof (induction steps arbitrary: fl)
  case Nil
  then show ?case by simp
next
  case (Cons step steps)
  obtain e f1 where s: "step fl = (e, f1)" by (cases "step fl")
  have p1: "P f1" using Cons.prems s by (metis list.set_intros(1) snd_conv)
  show ?case
  proof (cases e)
    case None
    then show ?thesis using Cons.IH[of f1] Cons.prems(1) p1 s by simp
  next
    case (Some a)
    then show ?thesis using p1 s by simp
  qed
qed

lemma block_names_not_ci:
  "''block_avg_conditional_flux '' @ x \<notin> set ci_names"
  "''block_avg_target_flux '' @ x \<notin> set ci_names"
  "''block_avg rate final '' @ x \<notin> set ci_names"
  by (simp_all add: ci_names_def)

lemma save_block_result_inv:
  assumes "stamp_inv self fl"
  shows "stamp_inv self (snd (save_block_result istate result fl))"
proof -
  obtain t c r stop where res: "result = (t, c, r, stop)" by (cases result)
  show ?thesis
    unfolding res save_block_result_def prod.case
    by (rule run_steps_inv[where P = "stamp_inv self"])
       (use assms in \<open>auto simp: ci_names_def intro!: write_ds_inv\<close>)
qed

lemma save_block_results_inv:
  assumes "stamp_inv self fl"
  shows "stamp_inv self (snd (save_block_results istate futures fl))"
  using assms
proof (induction futures arbitrary: fl)
  case Nil
  then show ?case by simp
next
  case (Cons future rest)
  show ?case
  proof (cases future)
    case (Inl e)
    then show ?thesis using Cons.prems by simp
  next
    case (Inr result)
    obtain e f1 where s: "save_block_result istate result fl = (e, f1)"
      by (cases "save_block_result istate result fl")
    have p1: "stamp_inv self f1"
      using save_block_result_inv[OF Cons.prems, of istate result] s by simp
    show ?thesis
    proof (cases e)
      case None
      then show ?thesis using Cons.IH[OF p1] Inr s by simp
    next
      case (Some a)
      then show ?thesis using p1 Inr s by simp
    qed
  qed
qed

lemma save_averages:
  "run_steps
     [write_ds ''avg_rates'' (Arr2 avg_rates),
      write_ds ''avg_conditional_fluxes'' (Arr2 avg_conditional_fluxes),
      write_ds ''avg_total_fluxes'' (Arr1 avg_total_fluxes),
      stamp_ds self ''avg_rates'',
      stamp_ds self ''avg_conditional_fluxes'',
      stamp_ds self ''avg_total_fluxes'',
      write_ds ''state_labels'' (Labels (state_labels self))] Map.empty
   = (None, averages_file self avg_rates avg_conditional_fluxes avg_total_fluxes)"
  by (simp add: write_ds_def stamp_ds_def create_dataset_def stamp_named_def averages_file_def
        fun_upd_twist)

lemma stamp_inv_averages_file:
  "stamp_inv self (averages_file self r c t)"
  unfolding averages_file_def
  by (intro stamp_inv_unstamped stamp_inv_stamped stamp_inv_empty) (simp_all add: ci_names_def)

lemma save_evolution:
  "\<exists>file2. run_steps
     [write_ds ''conditional_flux_evolution'' (Arr3 flux_evol),
      write_ds ''target_flux_evolution'' (Arr2 target_evol),
      write_ds ''rate_evolution'' (Arr3 rate_evol),
      stamp_ds self ''conditional_flux_evolution'',
      stamp_ds self ''target_flux_evolution'',
      stamp_ds self ''rate_evolution''] (averages_file self r c t)
   = (None, file2) \<and> stamp_inv self file2"
proof -
  let ?f2 = "(averages_file self r c t)
       (''conditional_flux_evolution'' \<mapsto>
           stamp_mcbs_info self \<lparr>content = Arr3 flux_evol, attrs = Map.empty\<rparr>,
        ''target_flux_evolution'' \<mapsto>
           stamp_mcbs_info self \<lparr>content = Arr2 target_evol, attrs = Map.empty\<rparr>,
        ''rate_evolution'' \<mapsto>
           stamp_mcbs_info self \<lparr>content = Arr3 rate_evol, attrs = Map.empty\<rparr>)"
  have "run_steps
     [write_ds ''conditional_flux_evolution'' (Arr3 flux_evol),
      write_ds ''target_flux_evolution'' (Arr2 target_evol),
      write_ds ''rate_evolution'' (Arr3 rate_evol),
      stamp_ds self ''conditional_flux_evolution'',
      stamp_ds self ''target_flux_evolution'',
      stamp_ds self ''rate_evolution''] (averages_file self r c t) = (None, ?f2)"
    by (simp add: write_ds_def stamp_ds_def create_dataset_def stamp_named_def averages_file_def
        fun_upd_twist)
  moreover have "stamp_inv self ?f2"
    by (intro stamp_inv_stamped stamp_inv_averages_file) (simp_all add: ci_names_def)
  ultimately show ?thesis by blast
qed

lemma go_trace_after_averages:
  assumes "avg_pairs (state_pairs (nstates self))
                (mcbs CondFlux (iter_range_start self) (iter_range_stop self))
                (mcbs Rate (iter_range_start self) (iter_range_stop self))
                (zeros2 (nstates self) (nstates self) zero_ci,
                 zeros2 (nstates self) (nstates self) zero_ci) = Inr (c, r)"
  shows "go_trace self mcbs iter_slice boot_order block_order Map.empty =
     (let n = nstates self;
          file1 = averages_file self r c
                    (map (\<lambda>istate. mcbs TotalFlux (iter_range_start self) (iter_range_stop self)
                                      istate istate) [0..<n])
      in
        if state_labels self = [] then (Some ValueError, file1)
        else if evolution_mode self = NoEvolution \<or> iter_range_step self = 0 then (None, file1)
        else
        (case evol_windows (evolution_mode self) (evol_window_frac self)
                (iter_range_start self) (iter_range_stop self) (iter_range_step self) of
           Inl e \<Rightarrow> (Some e, file1)
         | Inr windows \<Rightarrow>
        (case ci_type self of
           Bootstrap \<Rightarrow>
             (case consume_trace
                     (boot_order (map (\<lambda>(iblock, block_start, stop).
                                         eval_block iblock n (mcbs TotalFlux block_start stop)
                                           (mcbs CondFlux block_start stop)
                                           (mcbs Rate block_start stop))
                                      windows))
                     (zeros2 (length windows) n zero_ci,
                      zeros3 (length windows) n n zero_ci,
                      zeros3 (length windows) n n zero_ci) of
                Inl e \<Rightarrow> (Some e, file1)
              | Inr (target_evol, flux_evol, rate_evol) \<Rightarrow>
                  run_steps
                    [write_ds ''conditional_flux_evolution'' (Arr3 flux_evol),
                     write_ds ''target_flux_evolution'' (Arr2 target_evol),
                     write_ds ''rate_evolution'' (Arr3 rate_evol),
                     stamp_ds self ''conditional_flux_evolution'',
                     stamp_ds self ''target_flux_evolution'',
                     stamp_ds self ''rate_evolution''] file1)
         | Block \<Rightarrow>
             save_block_results (n - 1)
               (block_order (map (\<lambda>(iblock, block_start, stop).
                                    case iter_slice block_start stop of
                                      (total_fluxes, cond_fluxes, rates) \<Rightarrow>
                                        eval_block_avg block_start stop n
                                          total_fluxes cond_fluxes rates)
                                 windows))
               file1)))"
  unfolding go_trace_def Let_def assms sum.case prod.case save_averages option.case ..

lemma go_trace_inv:
  "stamp_inv self (snd (go_trace self mcbs iter_slice boot_order block_order Map.empty))"
proof -
  let ?n = "nstates self"
  let ?start = "iter_range_start self"
  let ?stop = "iter_range_stop self"
  show ?thesis
  proof (cases "avg_pairs (state_pairs ?n) (mcbs CondFlux ?start ?stop)
                (mcbs Rate ?start ?stop) (zeros2 ?n ?n zero_ci, zeros2 ?n ?n zero_ci)")
    case (Inl e)
    then show ?thesis by (simp add: go_trace_def Let_def stamp_inv_empty)
  next
    case (Inr p)
    obtain c r where p: "p = (c, r)" by (cases p)
    let ?t = "map (\<lambda>istate. mcbs TotalFlux ?start ?stop istate istate) [0..<?n]"
    let ?f1 = "averages_file self r c ?t"
    note inv1 = stamp_inv_averages_file[of self r c ?t]
    note go = go_trace_after_averages[where mcbs = mcbs and self = self
        and iter_slice = iter_slice and boot_order = boot_order and block_order = block_order,
        OF Inr[unfolded p]]
    show ?thesis
    proof (cases "state_labels self = [] \<or> evolution_mode self = NoEvolution
                    \<or> iter_range_step self = 0")
      case True
      then show ?thesis using inv1 unfolding go by (auto simp: Let_def)
    next
      case False
      show ?thesis
      proof (cases "evol_windows (evolution_mode self) (evol_window_frac self)
                ?start ?stop (iter_range_step self)")
        case (Inl e)
        then show ?thesis using inv1 False unfolding go by (simp add: Let_def)
      next
        case w: (Inr windows)
        show ?thesis
        proof (cases "ci_type self")
          case Block
          then show ?thesis using False w save_block_results_inv[OF inv1] unfolding go
            by (simp add: Let_def)
        next
          case Bootstrap
          let ?consumed = "consume_trace
                     (boot_order (map (\<lambda>(iblock, block_start, stop).
                                         eval_block iblock ?n (mcbs TotalFlux block_start stop)
                                           (mcbs CondFlux block_start stop)
                                           (mcbs Rate block_start stop))
                                      windows))
                     (zeros2 (length windows) ?n zero_ci,
                      zeros3 (length windows) ?n ?n zero_ci,
                      zeros3 (length windows) ?n ?n zero_ci)"
          show ?thesis
          proof (cases ?consumed)
            case (Inl e)
            then show ?thesis using False w Bootstrap inv1 unfolding go
              by (simp add: Let_def)
          next
            case ev: (Inr evols)
            obtain te fe re where evols: "evols = (te, fe, re)" by (cases evols)
            from save_evolution[of fe te re self r c ?t] obtain file2 where
              "run_steps
                 [write_ds ''conditional_flux_evolution'' (Arr3 fe),
                  write_ds ''target_flux_evolution'' (Arr2 te),
                  write_ds ''rate_evolution'' (Arr3 re),
                  stamp_ds self ''conditional_flux_evolution'',
                  stamp_ds self ''target_flux_evolution'',
                  stamp_ds self ''rate_evolution''] ?f1 = (None, file2)"
              "stamp_inv self file2" by blast
            then show ?thesis using False w Bootstrap ev evols unfolding go
              by (simp add: Let_def del: run_steps.simps)
          qed
        qed
      qed
    qed
  qed
qed

text \<open>
  Claim C9, amended. Every dataset the matrix subcommand writes carries \<open>mcbs_alpha\<close>,
  \<open>mcbs_acalpha\<close> and \<open>mcbs_nsets\<close> with the values of the run. Of the datasets the trace
  subcommand writes, the whole-range averages (\<open>avg_rates\<close>, \<open>avg_conditional_fluxes\<close>,
  \<open>avg_total_fluxes\<close>) and the bootstrap-mode evolution datasets
  (\<open>conditional_flux_evolution\<close>, \<open>target_flux_evolution\<close>, \<open>rate_evolution\<close>) carry them;
  every other dataset, that is \<open>state_labels\<close> and the \<open>block_avg\<close> datasets of the
  block-averaging mode, carries no attribute.
\<close>

theorem mcbs_attributes_stamped:
  "(\<forall>name ds.
      snd (go_matrix self zero avg_unit evol_unit avg_order evol_order Map.empty) name = Some ds
      \<longrightarrow> stamped self ds)
   \<and> (\<forall>name ds.
      snd (go_trace self mcbs iter_slice boot_order block_order Map.empty) name = Some ds
      \<longrightarrow> (if name \<in> set ci_names then stamped self ds else attrs ds = Map.empty))"
proof (intro conjI allI impI)
  fix name ds
  assume "snd (go_matrix self zero avg_unit evol_unit avg_order evol_order Map.empty) name
            = Some ds"
  then show "stamped self ds"
    by (rule go_matrix_all_stamped[rotated]) simp
next
  fix name ds
  assume "snd (go_trace self mcbs iter_slice boot_order block_order Map.empty) name = Some ds"
  then show "if name \<in> set ci_names then stamped self ds else attrs ds = Map.empty"
    using go_trace_inv[of self mcbs iter_slice boot_order block_order]
    unfolding stamp_inv_def by blast
qed

theorem mcbs_attributes_stamped_witness:
  "snd (go_trace demo_block_self demo_mcbs demo_slice id id Map.empty) ''avg_rates'' \<noteq> None
   \<and> ''avg_rates'' \<in> set ci_names
   \<and> stamped demo_block_self
        (the (snd (go_trace demo_block_self demo_mcbs demo_slice id id Map.empty) ''avg_rates''))
   \<and> snd (go_trace demo_block_self demo_mcbs demo_slice id id Map.empty) ''state_labels'' \<noteq> None
   \<and> ''state_labels'' \<notin> set ci_names
   \<and> attrs (the (snd (go_trace demo_block_self demo_mcbs demo_slice id id Map.empty)
                   ''state_labels'')) = Map.empty
   \<and> snd (go_matrix demo_self (0, 0) demo_avg_unit demo_evol_unit id id Map.empty)
         ''rate_evolution'' \<noteq> None
   \<and> stamped demo_self
        (the (snd (go_matrix demo_self (0, 0) demo_avg_unit demo_evol_unit id id Map.empty)
                ''rate_evolution''))"
proof -
  let ?t = "snd (go_trace demo_block_self demo_mcbs demo_slice id id Map.empty)"
  let ?m = "snd (go_matrix demo_self (0, 0) demo_avg_unit demo_evol_unit id id Map.empty)"
  have a: "?t ''avg_rates'' \<noteq> None" by code_simp
  have l: "?t ''state_labels'' \<noteq> None" by code_simp
  have r: "?m ''rate_evolution'' \<noteq> None" by code_simp
  have n: "''avg_rates'' \<in> set ci_names" "''state_labels'' \<notin> set ci_names"
    by (simp_all add: ci_names_def)
  note inst_t = mcbs_attributes_stamped[where self = demo_block_self and mcbs = demo_mcbs
      and iter_slice = demo_slice and boot_order = id and block_order = id]
  note inst_m = mcbs_attributes_stamped[where self = demo_self and zero = "(0, 0)"
      and avg_unit = demo_avg_unit and evol_unit = demo_evol_unit and avg_order = id
      and evol_order = id]
  from a obtain da where da: "?t ''avg_rates'' = Some da" by blast
  with inst_t n(1) have "stamped demo_block_self da" by (metis (no_types, lifting))
  with da have sa: "stamped demo_block_self (the (?t ''avg_rates''))" by simp
  from l obtain dl where dl: "?t ''state_labels'' = Some dl" by blast
  with inst_t n(2) have "attrs dl = Map.empty" by (metis (no_types, lifting))
  with dl have sl: "attrs (the (?t ''state_labels'')) = Map.empty" by simp
  from r obtain dr where dr: "?m ''rate_evolution'' = Some dr" by blast
  with inst_m have "stamped demo_self dr" by blast
  with dr have sr: "stamped demo_self (the (?m ''rate_evolution''))" by simp
  show ?thesis using a l r n sa sl sr by blast
qed

text \<open>
  Claim C9 as stated fails: a block-averaging run of the trace subcommand with one state
  and the single window \<open>[0, 4)\<close> ends without an exception and leaves the dataset
  \<open>block_avg rate final 4\<close> in the output file without any of the three attributes.
\<close>

theorem mcbs_attributes_counterexample:
  "fst (go_trace demo_block_self demo_mcbs demo_slice id id Map.empty) = None
   \<and> attr_of (snd (go_trace demo_block_self demo_mcbs demo_slice id id Map.empty))
        ''block_avg rate final 4'' ''mcbs_alpha'' = Some None
   \<and> attr_of (snd (go_trace demo_block_self demo_mcbs demo_slice id id Map.empty))
        ''block_avg rate final 4'' ''mcbs_acalpha'' = Some None
   \<and> attr_of (snd (go_trace demo_block_self demo_mcbs demo_slice id id Map.empty))
        ''block_avg rate final 4'' ''mcbs_nsets'' = Some None"
proof -
  have a: "fst (go_trace demo_block_self demo_mcbs demo_slice id id Map.empty) = None"
    by code_simp
  have b: "attr_of (snd (go_trace demo_block_self demo_mcbs demo_slice id id Map.empty))
        ''block_avg rate final 4'' ''mcbs_alpha'' = Some None"
    by code_simp
  have c: "attr_of (snd (go_trace demo_block_self demo_mcbs demo_slice id id Map.empty))
        ''block_avg rate final 4'' ''mcbs_acalpha'' = Some None"
    by code_simp
  have d: "attr_of (snd (go_trace demo_block_self demo_mcbs demo_slice id id Map.empty))
        ''block_avg rate final 4'' ''mcbs_nsets'' = Some None"
    by code_simp
  show ?thesis using a b c d by blast
qed

end
